theory Spec2Isabelle
  imports Complex_Main "HOL-Library.Sublist"
begin

section \<open>Text and the Python built-ins the client uses\<close>

text \<open>
  The module under verification is \<^verbatim>\<open>chapters/01. Downloading Web Pages/exercise.py\<close>:
  the class \<^verbatim>\<open>URL\<close> (constructor and \<^verbatim>\<open>request\<close>), the two module-level
  dictionaries \<^verbatim>\<open>open_sockets\<close> and \<^verbatim>\<open>cache\<close>, and \<^verbatim>\<open>decode_entities\<close>.

  Representation of text. A \<^verbatim>\<open>bytes\<close> value is a list of 8-bit characters. A
  \<^verbatim>\<open>str\<close> value is represented by its UTF-8 encoding, also a list of 8-bit
  characters: \<^verbatim>\<open>encode("utf8")\<close> is then the identity and \<^verbatim>\<open>decode("utf8")\<close> is
  a validity check. The operations the module applies to text with ASCII arguments
  (\<^verbatim>\<open>split\<close>, \<^verbatim>\<open>startswith\<close>, \<^verbatim>\<open>endswith\<close>, \<^verbatim>\<open>in\<close>, \<^verbatim>\<open>find\<close>, \<^verbatim>\<open>+\<close>,
  comparison with a literal, a character-by-character copy) commute with the encoding,
  because in UTF-8 no byte of a multi-byte character is an ASCII byte. \<^verbatim>\<open>strip\<close> is
  modelled on all text, through the encodings of the characters it removes. The two
  other built-ins that consult Unicode tables (\<^verbatim>\<open>casefold\<close>, \<^verbatim>\<open>int\<close>) are modelled
  on ASCII text only; where the module can apply them to other text the model stops with
  the outcome \<open>NotModelled\<close>, so that no statement is made about such a run.
\<close>

datatype error =
    ValueError
  | IndexError
  | AssertionError
  | OverflowError
  | MemoryError
  | UnicodeDecodeError
  | RecursionError
  | OSError
  | ConnectFailed
  | TLSFailed
  | GzipError
  | Exception string
  | NotModelled

abbreviation TooManyRedirects :: error where
  "TooManyRedirects \<equiv> Exception ''Too many redirects''"

abbreviation MissingLocationHeader :: error where
  "MissingLocationHeader \<equiv> Exception ''Redirect with no Location header''"

definition is_ascii :: "string \<Rightarrow> bool" where
  "is_ascii s = (\<forall>c \<in> set s. (of_char c :: nat) < 128)"

text \<open>\<^verbatim>\<open>s.startswith(p)\<close>, \<^verbatim>\<open>s.endswith(p)\<close> and \<^verbatim>\<open>sub in s\<close>.\<close>

definition startswith :: "string \<Rightarrow> string \<Rightarrow> bool" where
  "startswith s p = (take (length p) s = p)"

definition endswith :: "string \<Rightarrow> string \<Rightarrow> bool" where
  "endswith s p = (length p \<le> length s \<and> drop (length s - length p) s = p)"

fun contains :: "string \<Rightarrow> string \<Rightarrow> bool" where
  "contains [] sub = (sub = [])"
| "contains (c # cs) sub = (startswith (c # cs) sub \<or> contains cs sub)"

text \<open>
  \<^verbatim>\<open>a, b = s.split(sep, 1)\<close> for a one-character separator: the text before and after
  the first separator; \<open>None\<close> stands for the \<^verbatim>\<open>ValueError\<close> of unpacking a
  one-element list when the separator does not occur.
\<close>

definition split1 :: "char \<Rightarrow> string \<Rightarrow> (string \<times> string) option" where
  "split1 sep s =
     (if sep \<in> set s
      then Some (takeWhile (\<lambda>c. c \<noteq> sep) s, tl (dropWhile (\<lambda>c. c \<noteq> sep) s))
      else None)"

text \<open>\<^verbatim>\<open>s.split(sep)\<close> for a one-character separator: all the fields, never an empty list.\<close>

fun split_all :: "char \<Rightarrow> string \<Rightarrow> string list" where
  "split_all sep [] = [[]]"
| "split_all sep (c # cs) =
     (if c = sep then [] # split_all sep cs
      else (case split_all sep cs of
              [] \<Rightarrow> [[c]]
            | x # xs \<Rightarrow> (c # x) # xs))"

text \<open>
  \<^verbatim>\<open>s.strip()\<close>: the white space at both ends is removed. The characters Python
  takes for white space are U+0009..U+000D, U+001C..U+001F, U+0020, U+0085, U+00A0,
  U+1680, U+2000..U+200A, U+2028, U+2029, U+202F, U+205F and U+3000; \<open>WHITESPACE\<close>
  lists their UTF-8 encodings. In well-formed UTF-8 one of these encodings at the start
  or at the end of a text is the first or the last character of the text. \<open>is_space\<close>
  tells the ASCII ones among them.
\<close>

definition WHITESPACE :: "string list" where
  "WHITESPACE =
     [[CHR 0x09], [CHR 0x0A], [CHR 0x0B], [CHR 0x0C], [CHR 0x0D],
      [CHR 0x1C], [CHR 0x1D], [CHR 0x1E], [CHR 0x1F], [CHR 0x20],
      [CHR 0xC2, CHR 0x85], [CHR 0xC2, CHR 0xA0],
      [CHR 0xE1, CHR 0x9A, CHR 0x80],
      [CHR 0xE2, CHR 0x80, CHR 0x80], [CHR 0xE2, CHR 0x80, CHR 0x81],
      [CHR 0xE2, CHR 0x80, CHR 0x82], [CHR 0xE2, CHR 0x80, CHR 0x83],
      [CHR 0xE2, CHR 0x80, CHR 0x84], [CHR 0xE2, CHR 0x80, CHR 0x85],
      [CHR 0xE2, CHR 0x80, CHR 0x86], [CHR 0xE2, CHR 0x80, CHR 0x87],
      [CHR 0xE2, CHR 0x80, CHR 0x88], [CHR 0xE2, CHR 0x80, CHR 0x89],
      [CHR 0xE2, CHR 0x80, CHR 0x8A],
      [CHR 0xE2, CHR 0x80, CHR 0xA8], [CHR 0xE2, CHR 0x80, CHR 0xA9],
      [CHR 0xE2, CHR 0x80, CHR 0xAF],
      [CHR 0xE2, CHR 0x81, CHR 0x9F],
      [CHR 0xE3, CHR 0x80, CHR 0x80]]"

definition is_space :: "char \<Rightarrow> bool" where
  "is_space c = (let n = (of_char c :: nat) in (9 \<le> n \<and> n \<le> 13) \<or> (28 \<le> n \<and> n \<le> 32))"

lemma WHITESPACE_nonempty: "p \<in> set WHITESPACE \<Longrightarrow> p \<noteq> []"
  by (auto simp: WHITESPACE_def)

lemma lstrip_term:
  assumes "find (startswith s) WHITESPACE = Some p"
  shows "length s - length p < length s"
proof -
  from assms have "p \<in> set WHITESPACE" and sw: "startswith s p"
    by (auto simp: find_Some_iff)
  then have "p \<noteq> []" by (simp add: WHITESPACE_nonempty)
  with sw have "s \<noteq> []" by (auto simp: startswith_def)
  with \<open>p \<noteq> []\<close> show ?thesis by (cases p; cases s) auto
qed

lemma rstrip_term:
  assumes "find (endswith s) WHITESPACE = Some p"
  shows "length s - length p < length s"
proof -
  from assms have "p \<in> set WHITESPACE" and ew: "endswith s p"
    by (auto simp: find_Some_iff)
  then have "p \<noteq> []" by (simp add: WHITESPACE_nonempty)
  moreover from ew have "length p \<le> length s" by (simp add: endswith_def)
  ultimately show ?thesis by (cases p) auto
qed

function lstrip :: "string \<Rightarrow> string" where
  "lstrip s =
     (case find (startswith s) WHITESPACE of
        None \<Rightarrow> s
      | Some p \<Rightarrow> lstrip (drop (length p) s))"
  by pat_completeness auto
termination
  by (relation "measure length") (auto intro: lstrip_term)

declare lstrip.simps [simp del]

function rstrip :: "string \<Rightarrow> string" where
  "rstrip s =
     (case find (endswith s) WHITESPACE of
        None \<Rightarrow> s
      | Some p \<Rightarrow> rstrip (take (length s - length p) s))"
  by pat_completeness auto
termination
  by (relation "measure length") (auto intro: rstrip_term)

declare rstrip.simps [simp del]

definition strip :: "string \<Rightarrow> string" where
  "strip s = rstrip (lstrip s)"

text \<open>\<^verbatim>\<open>s.casefold()\<close> on ASCII text: the letters A..Z become a..z.\<close>

definition casefold_char :: "char \<Rightarrow> char" where
  "casefold_char c =
     (case map_of (zip ''ABCDEFGHIJKLMNOPQRSTUVWXYZ'' ''abcdefghijklmnopqrstuvwxyz'') c of
        None \<Rightarrow> c
      | Some l \<Rightarrow> l)"

definition casefold :: "string \<Rightarrow> string" where
  "casefold s = map casefold_char s"

subsection \<open>The built-in \<^verbatim>\<open>int(s)\<close> and \<^verbatim>\<open>int(s, 16)\<close>\<close>

text \<open>
  CPython's conversion of text to an integer, for base 10 and base 16: white space
  (space, U+0009..U+000D) is skipped at both ends, one sign is accepted, base 16 accepts
  the prefix \<^verbatim>\<open>0x\<close> or \<^verbatim>\<open>0X\<close> and one underscore after it, and the digits may be
  separated by single underscores. A base-10 text of more than \<open>int_max_str_digits\<close>
  digits is refused (the default of \<^verbatim>\<open>sys.get_int_max_str_digits()\<close> in current CPython).
  Every refusal is a \<^verbatim>\<open>ValueError\<close>. Text with a non-ASCII character is outside the model
  (Python accepts the decimal digits and spaces of every script).
\<close>

definition int_max_str_digits :: nat where
  "int_max_str_digits = 4300"

definition is_space_int :: "char \<Rightarrow> bool" where
  "is_space_int c = (let n = (of_char c :: nat) in (9 \<le> n \<and> n \<le> 13) \<or> n = 32)"

definition digit_value :: "char \<Rightarrow> nat" where
  "digit_value c =
     (let n = (of_char c :: nat) in
      if 48 \<le> n \<and> n \<le> 57 then n - 48
      else if 97 \<le> n \<and> n \<le> 122 then n - 87
      else if 65 \<le> n \<and> n \<le> 90 then n - 55
      else 37)"

fun no_double_underscore :: "string \<Rightarrow> bool" where
  "no_double_underscore (a # b # r) =
     (\<not> (a = CHR ''_'' \<and> b = CHR ''_'') \<and> no_double_underscore (b # r))"
| "no_double_underscore r = True"

definition valid_digits :: "nat \<Rightarrow> string \<Rightarrow> bool" where
  "valid_digits base t =
     (t \<noteq> [] \<and> hd t \<noteq> CHR ''_'' \<and> last t \<noteq> CHR ''_'' \<and> no_double_underscore t
      \<and> (\<forall>c \<in> set t. c = CHR ''_'' \<or> digit_value c < base))"

definition horner :: "nat \<Rightarrow> nat list \<Rightarrow> nat" where
  "horner base ds = foldl (\<lambda>acc d. acc * base + d) 0 ds"

definition py_int :: "nat \<Rightarrow> string \<Rightarrow> error + int" where
  "py_int base s =
     (if \<not> is_ascii s then Inl NotModelled
      else
        let t = rev (dropWhile is_space_int (rev (dropWhile is_space_int s)));
            neg = startswith t ''-'';
            t1 = (if startswith t ''-'' \<or> startswith t ''+'' then drop 1 t else t);
            t2 = (if base = 16 \<and> (startswith t1 ''0x'' \<or> startswith t1 ''0X'')
                  then (let r = drop 2 t1 in if startswith r ''_'' then drop 1 r else r)
                  else t1);
            ds = filter (\<lambda>c. c \<noteq> CHR ''_'') t2
        in if \<not> valid_digits base t2 then Inl ValueError
           else if base = 10 \<and> int_max_str_digits < length ds then Inl ValueError
           else Inr ((if neg then - 1 else 1) * int (horner base (map digit_value ds))))"

text \<open>\<^verbatim>\<open>str(n)\<close> for a natural number: its decimal digits.\<close>

fun dec :: "nat \<Rightarrow> string" where
  "dec n = (if n < 10 then [char_of (48 + n)] else dec (n div 10) @ [char_of (48 + n mod 10)])"

declare dec.simps [simp del]

section \<open>The URL parser\<close>

text \<open>
  A parsed URL is the object the constructor \<^verbatim>\<open>URL.__init__\<close> leaves behind. The
  attributes it sets depend on the scheme: \<^verbatim>\<open>scheme, host, port, path\<close> for http and
  https; \<^verbatim>\<open>path\<close> for file (\<^verbatim>\<open>host\<close> and \<^verbatim>\<open>port\<close> are \<^verbatim>\<open>None\<close>); \<^verbatim>\<open>MIME_type\<close> and
  \<^verbatim>\<open>data\<close> for data; \<^verbatim>\<open>actual_url\<close> for view-source.
\<close>

datatype URL =
    HttpURL string string int string
  | FileURL string
  | DataURL string string
  | ViewSourceURL URL

fun scheme :: "URL \<Rightarrow> string" where
  "scheme (HttpURL sch h p pa) = sch"
| "scheme (FileURL pa) = ''file''"
| "scheme (DataURL m d) = ''data''"
| "scheme (ViewSourceURL a) = ''view-source''"

lemma split1_shorter: "split1 sep s = Some (a, b) \<Longrightarrow> length b < length s"
proof -
  assume h: "split1 sep s = Some (a, b)"
  then have mem: "sep \<in> set s" and b: "b = tl (dropWhile (\<lambda>c. c \<noteq> sep) s)"
    by (auto simp: split1_def split: if_splits)
  from mem have ne: "dropWhile (\<lambda>c. c \<noteq> sep) s \<noteq> []"
    by auto
  have "length (dropWhile (\<lambda>c. c \<noteq> sep) s) \<le> length s"
    by (rule length_dropWhile_le)
  with ne b show ?thesis
    by (cases "dropWhile (\<lambda>c. c \<noteq> sep) s") auto
qed

function URL_init :: "string \<Rightarrow> error + URL" where
  "URL_init url =
     (case split1 CHR '':'' url of
        None \<Rightarrow> Inl ValueError
      | Some (sch, url_body) \<Rightarrow>
          if sch \<notin> set [''http'', ''https'', ''file'', ''data'', ''view-source'']
          then Inl AssertionError
          else if sch = ''data'' then
            (case split1 CHR '','' url_body of
               None \<Rightarrow> Inl ValueError
             | Some (mime, d) \<Rightarrow> Inr (DataURL mime d))
          else if sch = ''view-source'' then
            (case URL_init url_body of
               Inl e \<Rightarrow> Inl e
             | Inr actual_url \<Rightarrow> Inr (ViewSourceURL actual_url))
          else
            let url_body = (if startswith url_body ''//'' then drop 2 url_body else url_body);
                port = (if sch = ''http'' then 80 else 443)
            in if sch = ''file'' then Inr (FileURL url_body)
               else
                 let url_body = (if CHR ''/'' \<notin> set url_body then url_body @ ''/''
                                 else url_body)
                 in (case split1 CHR ''/'' url_body of
                       None \<Rightarrow> Inl ValueError
                     | Some (host, path) \<Rightarrow>
                         if CHR '':'' \<in> set host then
                           (case split1 CHR '':'' host of
                              None \<Rightarrow> Inl ValueError
                            | Some (host', port_text) \<Rightarrow>
                                (case py_int 10 port_text of
                                   Inl e \<Rightarrow> Inl e
                                 | Inr p \<Rightarrow> Inr (HttpURL sch host' p (''/'' @ path))))
                         else Inr (HttpURL sch host port (''/'' @ path))))"
  by pat_completeness auto
termination
  by (relation "measure length") (auto dest: split1_shorter)

declare URL_init.simps [simp del]

text \<open>
  Writing a parsed http or https URL back as text, with the port always explicit. The
  module has no such function; it states the round-trip property of the parser.
\<close>

definition reserialize :: "URL \<Rightarrow> string" where
  "reserialize u =
     (case u of
        HttpURL sch h p pa \<Rightarrow> sch @ ''://'' @ h @ '':'' @ dec (nat p) @ pa
      | _ \<Rightarrow> [])"


text \<open>
  A text parses to a URL object, and writing that object back gives a text that parses
  to the same object.
\<close>

definition parses_roundtrip :: "string \<Rightarrow> URL \<Rightarrow> bool" where
  "parses_roundtrip s u = (URL_init s = Inr u \<and> URL_init (reserialize u) = Inr u)"

section \<open>The entity decoder\<close>

text \<open>
  \<^verbatim>\<open>decode_entities(text)\<close>. The table \<^verbatim>\<open>ENTITIES\<close> maps five entity names to one
  character each; the copyright sign U+00A9 and the en dash U+2013 appear as their UTF-8
  bytes. The \<^verbatim>\<open>while\<close> loop over the index \<^verbatim>\<open>i\<close> is \<open>decode_loop\<close>;
  \<^verbatim>\<open>text.find(";", i+1)\<close> is \<open>find_from\<close>, with \<open>None\<close> for the result -1, and
  the slice \<^verbatim>\<open>text[i:semicolon_index + 1]\<close> is a \<open>take\<close> of a \<open>drop\<close>.
\<close>

definition ENTITIES :: "(string \<times> string) list" where
  "ENTITIES =
     [(''&lt;'', ''<''),
      (''&gt;'', ''>''),
      (''&copy;'', [CHR 0xC2, CHR 0xA9]),
      (''&ndash;'', [CHR 0xE2, CHR 0x80, CHR 0x93]),
      (''&amp;'', ''&'')]"

definition find_from :: "char \<Rightarrow> string \<Rightarrow> nat \<Rightarrow> nat option" where
  "find_from c text start =
     (if c \<in> set (drop start text)
      then Some (start + length (takeWhile (\<lambda>x. x \<noteq> c) (drop start text)))
      else None)"

function decode_loop :: "string \<Rightarrow> nat \<Rightarrow> string \<Rightarrow> string" where
  "decode_loop text i result =
     (if i < length text then
        (if text ! i = CHR ''&'' then
           (case find_from CHR '';'' text (i + 1) of
              Some semicolon_index \<Rightarrow>
                (let entity = take (semicolon_index + 1 - i) (drop i text) in
                 case map_of ENTITIES entity of
                   Some ch \<Rightarrow> decode_loop text (semicolon_index + 1) (result @ ch)
                 | None \<Rightarrow> decode_loop text (i + 1) (result @ [text ! i]))
            | None \<Rightarrow> decode_loop text (i + 1) (result @ [text ! i]))
         else decode_loop text (i + 1) (result @ [text ! i]))
      else result)"
  by pat_completeness auto
termination
  by (relation "measure (\<lambda>(text, i, result). length text - i)")
     (auto simp: find_from_def split: if_splits)

declare decode_loop.simps [simp del]

definition decode_entities :: "string \<Rightarrow> string" where
  "decode_entities text = decode_loop text 0 []"


text \<open>
  The decoder as the specification words it: reading from left to right, each
  occurrence of one of the five table entities is replaced by its character, and every
  other character, an ampersand or a semicolon included, is copied.
\<close>

function decode_spec :: "string \<Rightarrow> string" where
  "decode_spec text =
     (if text = [] then []
      else if startswith text ''&lt;'' then ''<'' @ decode_spec (drop 4 text)
      else if startswith text ''&gt;'' then ''>'' @ decode_spec (drop 4 text)
      else if startswith text ''&copy;'' then [CHR 0xC2, CHR 0xA9] @ decode_spec (drop 6 text)
      else if startswith text ''&ndash;''
        then [CHR 0xE2, CHR 0x80, CHR 0x93] @ decode_spec (drop 7 text)
      else if startswith text ''&amp;'' then ''&'' @ decode_spec (drop 5 text)
      else hd text # decode_spec (tl text))"
  by pat_completeness auto
termination
  by (relation "measure length") auto

declare decode_spec.simps [simp del]


text \<open>Decimal digits, for the statements about \<open>dec\<close>.\<close>

definition is_dec_digit :: "char \<Rightarrow> bool" where
  "is_dec_digit c = (48 \<le> (of_char c :: nat) \<and> (of_char c :: nat) \<le> 57)"

section \<open>The process state and its environment\<close>

text \<open>
  The two module-level dictionaries are the state of the process. A socket object is
  known by the position of its connection in the trace of network events, the peer it
  is connected to, and whether \<^verbatim>\<open>ssl\<close> wrapped it. Besides the dictionaries the
  world records the trace of network events, oldest first, and the number of times the
  clock has been read.
\<close>

record sock =
  sock_id :: nat
  peer :: "string \<times> int"
  tls :: bool

datatype event =
    Connect string int
  | Handshake string int
  | Send sock string
  | Recv sock

record world =
  open_sockets :: "(string \<times> int) \<rightharpoonup> sock"
  cache :: "string \<rightharpoonup> (string \<times> real option)"
  events :: "event list"
  ticks :: nat

text \<open>
  What the module cannot decide is the environment: whether \<^verbatim>\<open>connect\<close> and the TLS
  handshake succeed, the bytes the peer makes available to the reader of a response
  (a function of the whole trace so far, the request just sent included), the successive
  readings of \<^verbatim>\<open>time.time()\<close>, the outcome of reading a file, and \<^verbatim>\<open>gzip.decompress\<close>.
  A reading of the clock is a float, taken as the real number it denotes. The sum of a
  float and an integer, as in \<^verbatim>\<open>time.time() + max_age\<close>, is a float again, the
  rounded sum and in general not the exact one; the rounding of the platform's
  arithmetic is not fixed here, and \<open>float_add env t n\<close> stands for the float that
  \<^verbatim>\<open>t + n\<close> evaluates to when the integer \<open>n\<close> converts to a float. (That sum is
  finite for every reading of a clock below \<open>2 ^ 970\<close>.) A response is a finite
  sequence of bytes followed by the end of the stream, and an established connection
  does not fail.
\<close>

record env =
  reachable :: "string \<Rightarrow> int \<Rightarrow> bool"
  tls_ok :: "string \<Rightarrow> int \<Rightarrow> bool"
  respond :: "event list \<Rightarrow> string"
  clock :: "nat \<Rightarrow> real"
  float_add :: "real \<Rightarrow> int \<Rightarrow> real"
  read_file :: "string \<Rightarrow> error + string"
  gunzip :: "string \<Rightarrow> string option"

definition time :: "env \<Rightarrow> world \<Rightarrow> real \<times> world" where
  "time env w = (clock env (ticks w), w\<lparr>ticks := ticks w + 1\<rparr>)"

section \<open>Reading a response\<close>

abbreviation CR :: char where "CR \<equiv> CHR 0x0D"
abbreviation LF :: char where "LF \<equiv> CHR 0x0A"

text \<open>
  \<^verbatim>\<open>response.readline()\<close> on the bytes still unread: the bytes up to and including
  the first line feed, or all of them when there is none, and the bytes left.
\<close>

definition readline :: "string \<Rightarrow> string \<times> string" where
  "readline stream =
     (case split1 LF stream of
        None \<Rightarrow> (stream, [])
      | Some (a, b) \<Rightarrow> (a @ [LF], b))"

text \<open>
  \<^verbatim>\<open>response.read(n)\<close> of the buffered reader: a size that does not fit the C type
  \<^verbatim>\<open>Py_ssize_t\<close> (64-bit build) raises \<^verbatim>\<open>OverflowError\<close>, a size below -1 raises
  \<^verbatim>\<open>ValueError\<close>, the size -1 reads to the end of the stream, and any other size reads
  that many bytes or as many as are left. When more is asked for than is left, the
  reader first allocates a bytes object of the size asked for: that raises
  \<^verbatim>\<open>OverflowError\<close> when the size and the object's header of 33 bytes exceed
  \<^verbatim>\<open>Py_ssize_t\<close>, and \<^verbatim>\<open>MemoryError\<close> from \<open>2 ^ 62\<close> bytes on; whether a size
  from \<open>2 ^ 31\<close> up to there can be allocated depends on the machine and is outside the
  model; a smaller one is taken to be allocated.
\<close>

definition PY_SSIZE_T_MAX :: int where
  "PY_SSIZE_T_MAX = 2 ^ 63 - 1"

definition reader_read :: "int \<Rightarrow> string \<Rightarrow> error + (string \<times> string)" where
  "reader_read n stream =
     (if PY_SSIZE_T_MAX < n \<or> n < - PY_SSIZE_T_MAX - 1 then Inl OverflowError
      else if n < - 1 then Inl ValueError
      else if n = - 1 then Inr (stream, [])
      else if n \<le> int (length stream) then Inr (take (nat n) stream, drop (nat n) stream)
      else if PY_SSIZE_T_MAX - 33 < n then Inl OverflowError
      else if 2 ^ 62 \<le> n then Inl MemoryError
      else if 2 ^ 31 \<le> n then Inl NotModelled
      else Inr (stream, []))"

text \<open>
  Well-formed UTF-8, as the strict decoder of \<^verbatim>\<open>bytes.decode("utf8")\<close> accepts it:
  no overlong form, no surrogate, nothing above U+10FFFF.
\<close>

definition is_cont :: "char \<Rightarrow> bool" where
  "is_cont c = (128 \<le> (of_char c :: nat) \<and> (of_char c :: nat) \<le> 191)"

fun valid_utf8 :: "string \<Rightarrow> bool" where
  "valid_utf8 [] = True"
| "valid_utf8 (c # cs) =
     (let n = (of_char c :: nat) in
      if n < 128 then valid_utf8 cs
      else if 194 \<le> n \<and> n \<le> 223 then
        (case cs of
           c1 # r \<Rightarrow> is_cont c1 \<and> valid_utf8 r
         | _ \<Rightarrow> False)
      else if 224 \<le> n \<and> n \<le> 239 then
        (case cs of
           c1 # c2 # r \<Rightarrow>
             is_cont c1 \<and> is_cont c2
             \<and> (n = 224 \<longrightarrow> 160 \<le> (of_char c1 :: nat))
             \<and> (n = 237 \<longrightarrow> (of_char c1 :: nat) \<le> 159)
             \<and> valid_utf8 r
         | _ \<Rightarrow> False)
      else if 240 \<le> n \<and> n \<le> 244 then
        (case cs of
           c1 # c2 # c3 # r \<Rightarrow>
             is_cont c1 \<and> is_cont c2 \<and> is_cont c3
             \<and> (n = 240 \<longrightarrow> 144 \<le> (of_char c1 :: nat))
             \<and> (n = 244 \<longrightarrow> (of_char c1 :: nat) \<le> 143)
             \<and> valid_utf8 r
         | _ \<Rightarrow> False)
      else False)"

text \<open>
  \<^verbatim>\<open>.decode("utf8")\<close> of a status line, a header line or a chunk-size line. The module
  goes on to apply \<^verbatim>\<open>casefold\<close> or \<^verbatim>\<open>int\<close> to the text, so a line with a
  non-ASCII character is outside the model.
\<close>

definition decode_line :: "string \<Rightarrow> error + string" where
  "decode_line raw =
     (if \<not> valid_utf8 raw then Inl UnicodeDecodeError
      else if \<not> is_ascii raw then Inl NotModelled
      else Inr raw)"

lemma readline_shorter:
  "readline stream = (raw, rest) \<Longrightarrow> raw \<noteq> [] \<Longrightarrow> length rest < length stream"
  by (auto simp: readline_def split: option.splits dest: split1_shorter)

lemma reader_read_shorter:
  "reader_read n stream = Inr (a, b) \<Longrightarrow> length b \<le> length stream"
  by (auto simp: reader_read_def split: if_splits)

lemma py_int_Nil: "py_int base [] = Inl ValueError"
  by (simp add: py_int_def is_ascii_def startswith_def valid_digits_def)

lemma strip_Nil: "strip [] = []"
  by (simp add: strip_def lstrip.simps rstrip.simps WHITESPACE_def startswith_def endswith_def)

lemma decode_line_Nil: "decode_line [] = Inr []"
  by (simp add: decode_line_def is_ascii_def)

lemma decode_line_Inr: "decode_line raw = Inr line \<Longrightarrow> line = raw"
  by (simp add: decode_line_def split: if_splits)

lemma read_headers_term:
  assumes "(raw, rest) = readline stream" "decode_line raw = Inr line"
    "split1 c line = Some (a, b)"
  shows "length rest < length stream"
proof -
  from assms have "line = raw" by (simp add: decode_line_Inr)
  with assms have "raw \<noteq> []" by (auto simp: split1_def split: if_splits)
  with assms(1) show ?thesis by (simp add: readline_shorter [OF sym])
qed

lemma read_chunked_term:
  assumes "(raw, rest) = readline stream" "decode_line raw = Inr line"
    "py_int 16 (strip line) = Inr n" "reader_read n rest = Inr (chunk_data, rest1)"
    "reader_read m rest1 = Inr (crlf, rest2)"
  shows "length rest2 < length stream"
proof -
  from assms have "line = raw" by (simp add: decode_line_Inr)
  with assms have "raw \<noteq> []" by (auto simp: strip_Nil py_int_Nil)
  with assms(1) have a: "length rest < length stream" by (simp add: readline_shorter [OF sym])
  from assms have "length rest1 \<le> length rest" "length rest2 \<le> length rest1"
    by (auto dest: reader_read_shorter)
  with a show ?thesis by simp
qed

text \<open>
  The header loop (source lines 103 to 108): lines are read until the bare CRLF; each
  other line is split at its first colon, the name case-folded and the value stripped,
  and a later header of the same name overwrites an earlier one. A line without colon,
  the empty line at the end of the stream included, raises \<^verbatim>\<open>ValueError\<close>.
\<close>

function read_headers ::
  "string \<Rightarrow> (string \<rightharpoonup> string) \<Rightarrow> error + ((string \<rightharpoonup> string) \<times> string)" where
  "read_headers stream response_headers =
     (case readline stream of
        (raw, rest) \<Rightarrow>
          (case decode_line raw of
             Inl e \<Rightarrow> Inl e
           | Inr line \<Rightarrow>
               if line = [CR, LF] then Inr (response_headers, rest)
               else
                 (case split1 CHR '':'' line of
                    None \<Rightarrow> Inl ValueError
                  | Some (header, v) \<Rightarrow>
                      read_headers rest (response_headers(casefold header \<mapsto> strip v)))))"
  by pat_completeness auto
termination
  by (relation "measure (\<lambda>(stream, response_headers). length stream)")
     (auto intro: read_headers_term)

declare read_headers.simps [simp del]

text \<open>
  The chunk loop (source lines 135 to 149). The two bytes after a chunk are skipped
  without being looked at; after the chunk of size 0 one more line is read.
\<close>

function read_chunked :: "string \<Rightarrow> string \<Rightarrow> error + (string \<times> string)" where
  "read_chunked stream body_bytes =
     (case readline stream of
        (raw, rest) \<Rightarrow>
          (case decode_line raw of
             Inl e \<Rightarrow> Inl e
           | Inr line \<Rightarrow>
               (case py_int 16 (strip line) of
                  Inl e \<Rightarrow> Inl e
                | Inr chunk_size \<Rightarrow>
                    if chunk_size = 0 then Inr (body_bytes, snd (readline rest))
                    else
                      (case reader_read chunk_size rest of
                         Inl e \<Rightarrow> Inl e
                       | Inr (chunk_data, rest1) \<Rightarrow>
                           (case reader_read 2 rest1 of
                              Inl e \<Rightarrow> Inl e
                            | Inr (crlf, rest2) \<Rightarrow>
                                read_chunked rest2 (body_bytes @ chunk_data))))))"
  by pat_completeness auto
termination
  by (relation "measure (\<lambda>(stream, body_bytes). length stream)")
     (auto intro: read_chunked_term)

declare read_chunked.simps [simp del]

section \<open>The method \<^verbatim>\<open>URL.request\<close>\<close>

text \<open>
  Obtaining the socket (source lines 57 to 73). The pool is consulted with the key
  \<^verbatim>\<open>(host, port)\<close> alone. Only when it has no entry is a connection opened, wrapped by
  \<^verbatim>\<open>ssl\<close> when the scheme is https, and stored. An exception of \<^verbatim>\<open>connect\<close> or of
  \<^verbatim>\<open>wrap_socket\<close> leaves the pool as it was.
\<close>

definition obtain_socket ::
  "env \<Rightarrow> string \<Rightarrow> string \<Rightarrow> int \<Rightarrow> world \<Rightarrow> (error + sock) \<times> world" where
  "obtain_socket env sch host port w =
     (case open_sockets w (host, port) of
        Some s \<Rightarrow> (Inr s, w)
      | None \<Rightarrow>
          let w1 = w\<lparr>events := events w @ [Connect host port]\<rparr>;
              s = \<lparr>sock_id = length (events w), peer = (host, port), tls = False\<rparr>
          in if \<not> reachable env host port then (Inl ConnectFailed, w1)
             else if sch = ''https'' then
               (let w2 = w1\<lparr>events := events w1 @ [Handshake host port]\<rparr>;
                    s' = s\<lparr>tls := True\<rparr>
                in if \<not> tls_ok env host port then (Inl TLSFailed, w2)
                   else (Inr s', w2\<lparr>open_sockets := (open_sockets w2)((host, port) \<mapsto> s')\<rparr>))
             else (Inr s, w1\<lparr>open_sockets := (open_sockets w1)((host, port) \<mapsto> s)\<rparr>))"

text \<open>
  The cache check (source lines 78 to 83): an entry without expiry, or with an expiry
  after \<^verbatim>\<open>now\<close>, is returned; any other entry is deleted.
\<close>

definition cache_lookup :: "string \<Rightarrow> real \<Rightarrow> world \<Rightarrow> string option \<times> world" where
  "cache_lookup url now w =
     (case cache w url of
        None \<Rightarrow> (None, w)
      | Some (body, expiry) \<Rightarrow>
          (case expiry of
             None \<Rightarrow> (Some body, w)
           | Some t \<Rightarrow>
               if now < t then (Some body, w)
               else (None, w\<lparr>cache := (cache w)(url := None)\<rparr>)))"

text \<open>The request text (source lines 85 to 95).\<close>

definition request_text :: "string \<Rightarrow> string \<Rightarrow> string" where
  "request_text host path =
     ''GET '' @ path @ '' HTTP/1.1'' @ [CR, LF]
     @ ''Host: '' @ host @ [CR, LF]
     @ ''Connection: keep-alive'' @ [CR, LF]
     @ ''User-Agent: ArunBrowser/0.1'' @ [CR, LF]
     @ ''Accept-Encoding: gzip'' @ [CR, LF]
     @ [CR, LF]"

text \<open>
  What the first part of the method (source lines 57 to 108) leaves: an exception, the
  body of a cache hit, or the status text, the headers and the unread rest of a response.
\<close>

datatype head =
    Raised error
  | CacheHit string
  | Head string "string \<rightharpoonup> string" string

text \<open>The status line and the headers (source lines 99 to 108).\<close>

definition read_head :: "string \<Rightarrow> head" where
  "read_head response =
     (case readline response of
        (raw, rest) \<Rightarrow>
          (case decode_line raw of
             Inl e \<Rightarrow> Raised e
           | Inr status_line \<Rightarrow>
               (case split1 CHR '' '' status_line of
                  None \<Rightarrow> Raised ValueError
                | Some (version, r) \<Rightarrow>
                    (case split1 CHR '' '' r of
                       None \<Rightarrow> Raised ValueError
                     | Some (status, explanation) \<Rightarrow>
                         (case read_headers rest Map.empty of
                            Inl e \<Rightarrow> Raised e
                          | Inr (response_headers, rest') \<Rightarrow>
                              Head status response_headers rest')))))"

text \<open>Sending the request and reading the head of the response (source lines 85 to 108).\<close>

definition send_request :: "env \<Rightarrow> sock \<Rightarrow> string \<Rightarrow> string \<Rightarrow> world \<Rightarrow> head \<times> world" where
  "send_request env s host path w =
     (let w1 = w\<lparr>events := events w @ [Send s (request_text host path)]\<rparr>;
          response = respond env (events w1);
          w2 = w1\<lparr>events := events w1 @ [Recv s]\<rparr>
      in (read_head response, w2))"

definition http_begin ::
  "env \<Rightarrow> string \<Rightarrow> string \<Rightarrow> int \<Rightarrow> string \<Rightarrow> world \<Rightarrow> head \<times> world" where
  "http_begin env sch host port path w =
     (case obtain_socket env sch host port w of
        (Inl e, w1) \<Rightarrow> (Raised e, w1)
      | (Inr s, w1) \<Rightarrow>
          (let url = sch @ ''://'' @ host @ path in
           case time env w1 of
             (now, w2) \<Rightarrow>
               (case cache_lookup url now w2 of
                  (Some body, w3) \<Rightarrow> (CacheHit body, w3)
                | (None, w3) \<Rightarrow> send_request env s host path w3)))"

text \<open>
  The redirect branch up to the new location (source lines 112 to 129): the check of
  the counter, the \<^verbatim>\<open>Location\<close> header, and the three ways to resolve it.
\<close>

definition redirect_location ::
  "string \<Rightarrow> string \<Rightarrow> string \<Rightarrow> (string \<rightharpoonup> string) \<Rightarrow> int \<Rightarrow> error + string" where
  "redirect_location sch host path response_headers redirects =
     (if 5 \<le> redirects then Inl TooManyRedirects
      else
        (case response_headers ''location'' of
           None \<Rightarrow> Inl MissingLocationHeader
         | Some loc \<Rightarrow>
             if loc = [] then Inl MissingLocationHeader
             else if \<not> contains loc ''://'' then
               (if startswith loc ''/'' then Inr (sch @ ''://'' @ host @ loc)
                else if endswith path ''/'' then Inr (sch @ ''://'' @ host @ path @ loc)
                else Inr (sch @ ''://'' @ host @ path @ ''/'' @ loc))
             else Inr loc))"

text \<open>The body of the response (source lines 134 to 155).\<close>

definition read_body :: "(string \<rightharpoonup> string) \<Rightarrow> string \<Rightarrow> error + string" where
  "read_body response_headers response =
     (if response_headers ''transfer-encoding'' = Some ''chunked'' then
        (case read_chunked response [] of
           Inl e \<Rightarrow> Inl e
         | Inr (body_bytes, rest) \<Rightarrow> Inr body_bytes)
      else
        (case (case response_headers ''content-length'' of
                 None \<Rightarrow> Inr 0
               | Some v \<Rightarrow> py_int 10 v) of
           Inl e \<Rightarrow> Inl e
         | Inr content_length \<Rightarrow>
             if 0 < content_length then
               (case reader_read content_length response of
                  Inl e \<Rightarrow> Inl e
                | Inr (body_bytes, rest) \<Rightarrow> Inr body_bytes)
             else Inr response))"

text \<open>
  The loop over the directives of \<^verbatim>\<open>Cache-Control\<close> inside the \<^verbatim>\<open>try\<close> (source lines
  170 to 178), up to the conversion of the value: \<open>Inr (Some max_age)\<close> when the first
  directive that starts with \<^verbatim>\<open>max-age=\<close> has a value \<^verbatim>\<open>int\<close> accepts, \<open>Inr None\<close>
  when there is no such directive or the \<^verbatim>\<open>ValueError\<close> or \<^verbatim>\<open>IndexError\<close> was
  caught, and \<open>Inl\<close> for an exception the \<^verbatim>\<open>except\<close> clause lets through.
\<close>

fun max_age_loop :: "string list \<Rightarrow> error + int option" where
  "max_age_loop [] = Inr None"
| "max_age_loop (d # ds) =
     (let directive = strip d in
      if startswith directive ''max-age='' then
        (case split_all CHR ''='' directive of
           a # v # r \<Rightarrow>
             (case py_int 10 v of
                Inl e \<Rightarrow> if e = ValueError \<or> e = IndexError then Inr None else Inl e
              | Inr max_age \<Rightarrow> Inr (Some max_age))
         | _ \<Rightarrow> Inr None)
      else max_age_loop ds)"

text \<open>
  \<^verbatim>\<open>time.time() + max_age\<close> converts the integer to a float first, which raises
  \<^verbatim>\<open>OverflowError\<close> when the integer rounds to a magnitude of \<open>2 ^ 1024\<close> or more:
  that is, from the magnitude \<open>2 ^ 1024 - 2 ^ 970\<close> on.
\<close>

definition float_overflow :: "int \<Rightarrow> bool" where
  "float_overflow n = (2 ^ 1024 - 2 ^ 970 \<le> \<bar>n\<bar>)"

text \<open>
  Storing the response (source lines 164 to 181); \<open>Some e\<close> is an exception that
  leaves the method.
\<close>

definition cache_insert ::
  "env \<Rightarrow> string \<Rightarrow> string \<Rightarrow> (string \<rightharpoonup> string) \<Rightarrow> world \<Rightarrow> error option \<times> world" where
  "cache_insert env url body response_headers w =
     (let cache_control = (case response_headers ''cache-control'' of
                             None \<Rightarrow> []
                           | Some v \<Rightarrow> v)
      in if contains cache_control ''max-age='' then
           (case max_age_loop (split_all CHR '','' cache_control) of
              Inl e \<Rightarrow> (Some e, w)
            | Inr None \<Rightarrow> (None, w)
            | Inr (Some max_age) \<Rightarrow>
                (case time env w of
                   (t, w1) \<Rightarrow>
                     if float_overflow max_age then (Some OverflowError, w1)
                     else (None, w1\<lparr>cache := (cache w1)(url \<mapsto>
                                    (body, Some (float_add env t max_age)))\<rparr>)))
         else (None, w))"

text \<open>
  The second part of the method for a response that is not a redirect (source lines
  134 to 183): the body, \<^verbatim>\<open>gzip\<close>, the decoding, and the cache.
\<close>

definition http_finish ::
  "env \<Rightarrow> string \<Rightarrow> int \<Rightarrow> (string \<rightharpoonup> string) \<Rightarrow> string \<Rightarrow> world
     \<Rightarrow> (error + string) \<times> world" where
  "http_finish env url status response_headers response w =
     (case read_body response_headers response of
        Inl e \<Rightarrow> (Inl e, w)
      | Inr body_bytes \<Rightarrow>
          (case (if response_headers ''content-encoding'' = Some ''gzip''
                 then (case gunzip env body_bytes of
                         None \<Rightarrow> Inl GzipError
                       | Some b \<Rightarrow> Inr b)
                 else Inr body_bytes) of
             Inl e \<Rightarrow> (Inl e, w)
           | Inr body_bytes' \<Rightarrow>
               if \<not> valid_utf8 body_bytes' then (Inl UnicodeDecodeError, w)
               else if status = 200 then
                 (case cache_insert env url body_bytes' response_headers w of
                    (Some e, w1) \<Rightarrow> (Inl e, w1)
                  | (None, w1) \<Rightarrow> (Inr body_bytes', w1))
               else (Inr body_bytes', w)))"

text \<open>
  The method itself. Its two recursive calls are tail calls; \<open>depth\<close> is the number
  of nested calls the interpreter still allows, and a call beyond it is the
  \<^verbatim>\<open>RecursionError\<close> of CPython. The call for a view-source URL passes no counter, so
  the wrapped URL is requested with the default \<^verbatim>\<open>redirects=0\<close>.
\<close>

fun request :: "env \<Rightarrow> nat \<Rightarrow> URL \<Rightarrow> int \<Rightarrow> world \<Rightarrow> (error + string) \<times> world" where
  "request env depth (ViewSourceURL actual_url) redirects w =
     (case depth of
        0 \<Rightarrow> (Inl RecursionError, w)
      | Suc d \<Rightarrow> request env d actual_url 0 w)"
| "request env depth (FileURL path) redirects w = (read_file env path, w)"
| "request env depth (DataURL mime d) redirects w = (Inr d, w)"
| "request env depth (HttpURL sch host port path) redirects w =
     (case http_begin env sch host port path w of
        (Raised e, w1) \<Rightarrow> (Inl e, w1)
      | (CacheHit body, w1) \<Rightarrow> (Inr body, w1)
      | (Head status response_headers response, w1) \<Rightarrow>
          (case py_int 10 status of
             Inl e \<Rightarrow> (Inl e, w1)
           | Inr st \<Rightarrow>
               if 300 \<le> st \<and> st < 400 then
                 (case redirect_location sch host path response_headers redirects of
                    Inl e \<Rightarrow> (Inl e, w1)
                  | Inr loc \<Rightarrow>
                      (case URL_init loc of
                         Inl e \<Rightarrow> (Inl e, w1)
                       | Inr redirect_url \<Rightarrow>
                           (case depth of
                              0 \<Rightarrow> (Inl RecursionError, w1)
                            | Suc d \<Rightarrow> request env d redirect_url (redirects + 1) w1)))
               else http_finish env (sch @ ''://'' @ host @ path) st response_headers
                      response w1))"

section \<open>A concrete environment\<close>

text \<open>
  A server that answers every request with the same cacheable page, a process that has
  done nothing yet, and two sockets, for the evaluation of the model on concrete runs.
\<close>

definition page_response :: string where
  "page_response =
     ''HTTP/1.1 200 OK'' @ [CR, LF] @ ''Cache-Control: max-age=60'' @ [CR, LF]
     @ ''Content-Length: 2'' @ [CR, LF] @ [CR, LF] @ ''hi''"

definition demo_env :: env where
  "demo_env =
     \<lparr>reachable = (\<lambda>h p. p \<noteq> 7070), tls_ok = (\<lambda>h p. True),
      respond = (\<lambda>evs. page_response), clock = (\<lambda>n. 1000),
      float_add = (\<lambda>t n. t + real_of_int n),
      read_file = (\<lambda>p. if p = ''/tmp/a.txt'' then Inr ''abc'' else Inl OSError),
      gunzip = (\<lambda>b. None)\<rparr>"

definition w_fresh :: world where
  "w_fresh = \<lparr>open_sockets = Map.empty, cache = Map.empty, events = [], ticks = 0\<rparr>"

definition tls_sock :: sock where
  "tls_sock = \<lparr>sock_id = 0, peer = (''h'', 443), tls = True\<rparr>"

definition plain_sock :: sock where
  "plain_sock = \<lparr>sock_id = 0, peer = (''h'', 8080), tls = False\<rparr>"

definition w_tls :: world where
  "w_tls = \<lparr>open_sockets = [(''h'', 443) \<mapsto> tls_sock], cache = Map.empty, events = [],
            ticks = 0\<rparr>"

definition w_cached :: world where
  "w_cached =
     \<lparr>open_sockets = [(''h'', 8080) \<mapsto> plain_sock],
      cache = [''http://h/x'' \<mapsto> (''hi'', Some 1060)],
      events = [Connect ''h'' 8080, Send plain_sock (request_text ''h'' ''/x''), Recv plain_sock],
      ticks = 2\<rparr>"

definition w_stale :: world where
  "w_stale =
     \<lparr>open_sockets = [(''h'', 8080) \<mapsto> plain_sock],
      cache = [''http://h/x'' \<mapsto> (''old'', Some 900)],
      events = [],
      ticks = 0\<rparr>"

definition w_begin :: world where
  "w_begin =
     \<lparr>open_sockets = [(''h'', 8080) \<mapsto> plain_sock],
      cache = Map.empty,
      events = [Connect ''h'' 8080, Send plain_sock (request_text ''h'' ''/x''), Recv plain_sock],
      ticks = 1\<rparr>"

definition other_sock :: sock where
  "other_sock = \<lparr>sock_id = 3, peer = (''h'', 9090), tls = False\<rparr>"

definition w_other :: world where
  "w_other =
     \<lparr>open_sockets = [(''h'', 8080) \<mapsto> plain_sock, (''h'', 9090) \<mapsto> other_sock],
      cache = [''http://h/x'' \<mapsto> (''hi'', Some 1060)],
      events = [Connect ''h'' 8080, Send plain_sock (request_text ''h'' ''/x''), Recv plain_sock,
                Connect ''h'' 9090],
      ticks = 2\<rparr>"



definition page_headers :: "string \<rightharpoonup> string" where
  "page_headers = [''cache-control'' \<mapsto> ''max-age=60'', ''content-length'' \<mapsto> ''2'']"


text \<open>
  Two servers that redirect: one answers the first five requests with a redirect to
  \<^verbatim>\<open>/x\<close> and the sixth with the page, the other redirects every request. \<open>w_hops n\<close>
  is the world after \<open>n\<close> exchanges on the one connection to port 80.
\<close>

definition redirect_response :: string where
  "redirect_response =
     ''HTTP/1.1 301 Moved Permanently'' @ [CR, LF] @ ''Location: /x'' @ [CR, LF] @ [CR, LF]"

definition red_env :: env where
  "red_env = demo_env\<lparr>respond := (\<lambda>evs. if length evs < 12 then redirect_response
                                          else page_response)\<rparr>"

definition loop_env :: env where
  "loop_env = demo_env\<lparr>respond := (\<lambda>evs. redirect_response)\<rparr>"

definition sock80 :: sock where
  "sock80 = \<lparr>sock_id = 0, peer = (''h'', 80), tls = False\<rparr>"

definition u80 :: URL where
  "u80 = HttpURL ''http'' ''h'' 80 ''/x''"

fun hop_events :: "nat \<Rightarrow> event list" where
  "hop_events 0 = [Connect ''h'' 80]"
| "hop_events (Suc n) = hop_events n @ [Send sock80 (request_text ''h'' ''/x''), Recv sock80]"

definition w_hops :: "nat \<Rightarrow> world" where
  "w_hops n =
     \<lparr>open_sockets = [(''h'', 80) \<mapsto> sock80], cache = Map.empty, events = hop_events n,
      ticks = n\<rparr>"

definition w_final :: world where
  "w_final =
     \<lparr>open_sockets = [(''h'', 80) \<mapsto> sock80],
      cache = [''http://h/x'' \<mapsto> (''hi'', Some 1060)],
      events = hop_events 6,
      ticks = 7\<rparr>"

text \<open>
  Two servers whose redirects name a view-source URL: one answers the first six requests
  with a redirect to \<^verbatim>\<open>view-source:http://h/x\<close> and the seventh with the page, the
  other answers every request with that redirect.
\<close>

definition vs_redirect_response :: string where
  "vs_redirect_response =
     ''HTTP/1.1 301 Moved Permanently'' @ [CR, LF]
     @ ''Location: view-source:http://h/x'' @ [CR, LF] @ [CR, LF]"

definition vs_env :: env where
  "vs_env = demo_env\<lparr>respond := (\<lambda>evs. if length evs < 14 then vs_redirect_response
                                         else page_response)\<rparr>"

definition vs_loop_env :: env where
  "vs_loop_env = demo_env\<lparr>respond := (\<lambda>evs. vs_redirect_response)\<rparr>"

definition w_vs_final :: world where
  "w_vs_final =
     \<lparr>open_sockets = [(''h'', 80) \<mapsto> sock80],
      cache = [''http://h/x'' \<mapsto> (''hi'', Some 1060)],
      events = hop_events 7,
      ticks = 8\<rparr>"

section \<open>Notions used in the statements\<close>


text \<open>
  A chunked body on the wire. A chunk-size line ends with its only line feed, is ASCII
  text, and \<^verbatim>\<open>int(line.strip(), 16)\<close> of it is the size. A chunk is its size line, its
  payload (not empty, of a length that fits \<^verbatim>\<open>Py_ssize_t\<close>) and the two bytes that
  follow the payload. \<open>chunk_stream\<close> writes the chunks one after the other in front of
  what follows them.
\<close>

definition size_line_ok :: "string \<Rightarrow> int \<Rightarrow> bool" where
  "size_line_ok line n =
     (line \<noteq> [] \<and> last line = LF \<and> LF \<notin> set (butlast line)
      \<and> decode_line line = Inr line \<and> py_int 16 (strip line) = Inr n)"

definition chunk_ok :: "string \<times> string \<times> string \<Rightarrow> bool" where
  "chunk_ok c =
     (case c of
        (size_line, payload, sep) \<Rightarrow>
          payload \<noteq> [] \<and> int (length payload) \<le> PY_SSIZE_T_MAX
          \<and> size_line_ok size_line (int (length payload)) \<and> length sep = 2)"

fun chunk_stream :: "(string \<times> string \<times> string) list \<Rightarrow> string \<Rightarrow> string" where
  "chunk_stream [] rest = rest"
| "chunk_stream ((size_line, payload, sep) # cs) rest =
     size_line @ payload @ sep @ chunk_stream cs rest"

definition chunked_headers :: "string \<rightharpoonup> string" where
  "chunked_headers = [''transfer-encoding'' \<mapsto> ''chunked'']"

text \<open>
  A redirect that is followed. \<open>redirect_step env u w\<close> is defined when \<open>u\<close> is an http
  or https URL and, in the world \<open>w\<close>, the fetch of \<open>u\<close> reaches the network, the
  response has a status from 300 to 399 and a \<^verbatim>\<open>Location\<close> that resolves and parses; it
  gives the URL redirected to and the world after the exchange. The resolution of the
  location does not depend on the counter, which is put to 0 here.
  \<open>redirect_chain env u w n\<close> follows \<open>n\<close> such redirects one after the other.
\<close>

definition redirect_step :: "env \<Rightarrow> URL \<Rightarrow> world \<Rightarrow> (URL \<times> world) option" where
  "redirect_step env u w =
     (case u of
        HttpURL sch host port path \<Rightarrow>
          (case http_begin env sch host port path w of
             (Head status response_headers response, w1) \<Rightarrow>
               (case py_int 10 status of
                  Inr st \<Rightarrow>
                    if 300 \<le> st \<and> st < 400 then
                      (case redirect_location sch host path response_headers 0 of
                         Inr loc \<Rightarrow>
                           (case URL_init loc of
                              Inr redirect_url \<Rightarrow> Some (redirect_url, w1)
                            | Inl e \<Rightarrow> None)
                       | Inl e \<Rightarrow> None)
                    else None
                | Inl e \<Rightarrow> None)
           | _ \<Rightarrow> None)
      | _ \<Rightarrow> None)"

fun redirect_chain :: "env \<Rightarrow> URL \<Rightarrow> world \<Rightarrow> nat \<Rightarrow> (URL \<times> world) option" where
  "redirect_chain env u w 0 = Some (u, w)"
| "redirect_chain env u w (Suc n) =
     (case redirect_step env u w of
        None \<Rightarrow> None
      | Some (u', w') \<Rightarrow> redirect_chain env u' w' n)"

section \<open>Properties of the text operations\<close>

text \<open>
  On ASCII text \<open>strip\<close> removes the characters \<open>is_space\<close> tells, and no other.
\<close>

lemma find_space_ascii:
  assumes "(of_char c :: nat) < 128"
  shows "find (startswith (c # cs)) WHITESPACE = (if is_space c then Some [c] else None)"
proof (cases c)
  case (Char b0 b1 b2 b3 b4 b5 b6 b7)
  with assms have "\<not> b7" by (cases b7) simp_all
  with Char show ?thesis
    by (cases b0; cases b1; cases b2; cases b3; cases b4; cases b5; cases b6)
       (simp_all add: WHITESPACE_def startswith_def is_space_def)
qed

lemma lstrip_ascii: "is_ascii s \<Longrightarrow> lstrip s = dropWhile is_space s"
proof (induction s)
  case Nil
  show ?case by (simp add: lstrip.simps WHITESPACE_def startswith_def)
next
  case (Cons c cs)
  then have c: "(of_char c :: nat) < 128" and cs: "is_ascii cs" by (simp_all add: is_ascii_def)
  show ?case
    using Cons.IH [OF cs] by (simp add: lstrip.simps [of "c # cs"] find_space_ascii [OF c])
qed

lemma endswith_snoc:
  "endswith (xs @ [c]) p = (p = [] \<or> (last p = c \<and> endswith xs (butlast p)))"
proof (cases p rule: rev_cases)
  case Nil
  then show ?thesis by (simp add: endswith_def)
next
  case (snoc q d)
  have "endswith (xs @ [c]) (q @ [d]) = (d = c \<and> endswith xs q)"
    by (auto simp: endswith_def Suc_diff_le)
  with snoc show ?thesis by simp
qed

lemma find_space_ascii_end:
  assumes "(of_char c :: nat) < 128"
  shows "find (endswith (xs @ [c])) WHITESPACE = (if is_space c then Some [c] else None)"
proof (cases c)
  case (Char b0 b1 b2 b3 b4 b5 b6 b7)
  with assms have "\<not> b7" by (cases b7) simp_all
  moreover have "endswith xs []" by (simp add: endswith_def)
  ultimately show ?thesis using Char
    by (cases b0; cases b1; cases b2; cases b3; cases b4; cases b5; cases b6)
       (simp_all add: WHITESPACE_def endswith_snoc is_space_def)
qed

lemma rstrip_ascii: "is_ascii s \<Longrightarrow> rstrip s = rev (dropWhile is_space (rev s))"
proof (induction s rule: rev_induct)
  case Nil
  show ?case by (simp add: rstrip.simps WHITESPACE_def endswith_def)
next
  case (snoc c cs)
  then have c: "(of_char c :: nat) < 128" and cs: "is_ascii cs" by (simp_all add: is_ascii_def)
  show ?case
    using snoc.IH [OF cs] by (simp add: rstrip.simps [of "cs @ [c]"] find_space_ascii_end [OF c])
qed

lemma strip_ascii:
  assumes "is_ascii s"
  shows "strip s = rev (dropWhile is_space (rev (dropWhile is_space s)))"
proof -
  have "set (dropWhile is_space s) \<subseteq> set s" by (rule set_dropWhileD [THEN subsetI])
  with assms have "is_ascii (dropWhile is_space s)" by (auto simp: is_ascii_def)
  then show ?thesis by (simp add: strip_def lstrip_ascii [OF assms] rstrip_ascii)
qed


lemma split1_append:
  "sep \<notin> set a \<Longrightarrow> split1 sep (a @ sep # b) = Some (a, b)"
proof -
  assume a: "sep \<notin> set a"
  then have "takeWhile (\<lambda>c. c \<noteq> sep) (a @ sep # b) = a"
    by (induction a) auto
  moreover from a have "dropWhile (\<lambda>c. c \<noteq> sep) (a @ sep # b) = sep # b"
    by (induction a) auto
  ultimately show ?thesis by (simp add: split1_def)
qed

lemma split1_None: "sep \<notin> set s \<Longrightarrow> split1 sep s = None"
  by (simp add: split1_def)

lemma split1_SomeD:
  "split1 sep s = Some (a, b) \<Longrightarrow> sep \<notin> set a \<and> s = a @ sep # b"
proof -
  assume h: "split1 sep s = Some (a, b)"
  then have mem: "sep \<in> set s" and a: "a = takeWhile (\<lambda>c. c \<noteq> sep) s"
    and b: "b = tl (dropWhile (\<lambda>c. c \<noteq> sep) s)"
    by (auto simp: split1_def split: if_splits)
  from mem have ne: "dropWhile (\<lambda>c. c \<noteq> sep) s \<noteq> []" by auto
  then have "hd (dropWhile (\<lambda>c. c \<noteq> sep) s) = sep"
    using hd_dropWhile [of "\<lambda>c. c \<noteq> sep" s] by auto
  with ne b have "dropWhile (\<lambda>c. c \<noteq> sep) s = sep # b"
    by (cases "dropWhile (\<lambda>c. c \<noteq> sep) s") auto
  then have "s = a @ sep # b"
    using takeWhile_dropWhile_id [of "\<lambda>c. c \<noteq> sep" s] a by simp
  moreover have "sep \<notin> set a"
    using a by (auto dest: set_takeWhileD)
  ultimately show ?thesis by simp
qed

lemma no_double_underscore_free:
  "CHR ''_'' \<notin> set t \<Longrightarrow> no_double_underscore t"
  by (induction t rule: no_double_underscore.induct) auto

lemma dec_digit_props:
  "is_dec_digit c \<Longrightarrow> \<not> is_space_int c \<and> c \<noteq> CHR ''_'' \<and> c \<noteq> CHR ''-'' \<and> c \<noteq> CHR ''+''
     \<and> digit_value c < 10 \<and> (of_char c :: nat) < 128"
  by (auto simp: is_dec_digit_def is_space_int_def digit_value_def Let_def)

lemma py_int_digits:
  assumes ne: "t \<noteq> []" and dig: "\<forall>c \<in> set t. is_dec_digit c"
    and len: "length t \<le> int_max_str_digits"
  shows "py_int 10 t = Inr (int (horner 10 (map digit_value t)))"
proof -
  from ne obtain c r where t: "t = c # r" by (cases t) auto
  from ne obtain r' l where t': "t = r' @ [l]" by (cases t rule: rev_cases) auto
  have c: "is_dec_digit c" using dig t by simp
  have l: "is_dec_digit l" using dig t' by simp
  have asc: "is_ascii t" using dig dec_digit_props by (auto simp: is_ascii_def)
  have d1: "dropWhile is_space_int t = t" using t c dec_digit_props by simp
  have d2: "dropWhile is_space_int (rev t) = rev t" using t' l dec_digit_props by simp
  have s1: "\<not> startswith t ''-''" "\<not> startswith t ''+''"
    using t c dec_digit_props by (auto simp: startswith_def)
  have us: "CHR ''_'' \<notin> set t" using dig dec_digit_props by auto
  then have f: "filter (\<lambda>c. c \<noteq> CHR ''_'') t = t" by (auto simp: filter_id_conv)
  have "hd t \<noteq> CHR ''_''" using us ne by (metis hd_in_set)
  moreover have "last t \<noteq> CHR ''_''" using us ne by (metis last_in_set)
  ultimately have "hd t \<noteq> CHR ''_''" "last t \<noteq> CHR ''_''" by simp_all
  then have v: "valid_digits 10 t"
    using ne us dig dec_digit_props no_double_underscore_free
    by (auto simp: valid_digits_def)
  show ?thesis
    using asc d1 d2 s1 f v len by (simp add: py_int_def)
qed

lemma dec_digits: "\<forall>c \<in> set (dec n). is_dec_digit c"
proof (induction n rule: dec.induct)
  case (1 n)
  show ?case
  proof (cases "n < 10")
    case True
    then show ?thesis by (subst dec.simps) (simp add: is_dec_digit_def)
  next
    case False
    have "n mod 10 < 10" by simp
    then have "is_dec_digit (char_of (48 + n mod 10))"
      by (simp add: is_dec_digit_def)
    with False 1 show ?thesis by (subst dec.simps) auto
  qed
qed

lemma dec_nonempty: "dec n \<noteq> []"
  by (subst dec.simps) simp

lemma horner_snoc: "horner b (ds @ [d]) = horner b ds * b + d"
  by (simp add: horner_def)

lemma dec_value: "horner 10 (map digit_value (dec n)) = n"
proof (induction n rule: dec.induct)
  case (1 n)
  show ?case
  proof (cases "n < 10")
    case True
    then show ?thesis
      by (subst dec.simps) (simp add: horner_def digit_value_def)
  next
    case False
    have m: "n mod 10 < 10" by simp
    then have "digit_value (char_of (48 + n mod 10)) = n mod 10"
      by (simp add: digit_value_def Let_def)
    with False 1 show ?thesis
      by (subst dec.simps) (simp add: horner_snoc)
  qed
qed

lemma dec_length: "n < 10 ^ k \<Longrightarrow> 0 < k \<Longrightarrow> length (dec n) \<le> k"
proof (induction k arbitrary: n)
  case 0
  then show ?case by simp
next
  case (Suc k)
  show ?case
  proof (cases "n < 10")
    case True
    then show ?thesis by (subst dec.simps) simp
  next
    case False
    then have k: "0 < k" using Suc.prems by (cases k) auto
    have "n div 10 < 10 ^ k" using Suc.prems by (simp add: less_mult_imp_div_less mult.commute)
    with Suc.IH k have "length (dec (n div 10)) \<le> k" by simp
    with False show ?thesis by (subst dec.simps) simp
  qed
qed

lemma py_int_dec: "n < 65536 \<Longrightarrow> py_int 10 (dec n) = Inr (int n)"
proof -
  assume "n < 65536"
  then have "n < 10 ^ 5" by simp
  then have "length (dec n) \<le> 5" by (rule dec_length) simp
  then have "length (dec n) \<le> int_max_str_digits" by (simp add: int_max_str_digits_def)
  then show ?thesis
    using py_int_digits [OF dec_nonempty dec_digits] by (simp add: dec_value)
qed

lemma dec_no_sep: "CHR ''/'' \<notin> set (dec n) \<and> CHR '':'' \<notin> set (dec n)"
  using dec_digits [of n] by (auto simp: is_dec_digit_def)

lemma scheme_split:
  "split1 CHR '':'' (CHR ''h'' # CHR ''t'' # CHR ''t'' # CHR ''p'' # CHR '':'' # rest)
     = Some (''http'', rest)"
  "split1 CHR '':'' (CHR ''h'' # CHR ''t'' # CHR ''t'' # CHR ''p'' # CHR ''s'' # CHR '':'' # rest)
     = Some (''https'', rest)"
  by (simp_all add: split1_def)

lemma URL_init_http:
  assumes sch: "sch = ''http'' \<or> sch = ''https''"
    and body: "split1 CHR ''/'' (if CHR ''/'' \<notin> set b then b @ ''/'' else b) = Some (hp, pa)"
  shows "URL_init (sch @ ''://'' @ b) =
     (if CHR '':'' \<in> set hp then
        (case split1 CHR '':'' hp of
           None \<Rightarrow> Inl ValueError
         | Some (host', port_text) \<Rightarrow>
             (case py_int 10 port_text of
                Inl e \<Rightarrow> Inl e
              | Inr p \<Rightarrow> Inr (HttpURL sch host' p (''/'' @ pa))))
      else Inr (HttpURL sch hp (if sch = ''http'' then 80 else 443) (''/'' @ pa)))"
  using sch body
  by (subst URL_init.simps) (auto simp: scheme_split startswith_def)

lemma parse_default:
  assumes sch: "sch = ''http'' \<or> sch = ''https''"
    and h: "CHR '':'' \<notin> set h" "CHR ''/'' \<notin> set h"
  shows "URL_init (sch @ ''://'' @ h @ ''/'' @ r) =
           Inr (HttpURL sch h (if sch = ''http'' then 80 else 443) (''/'' @ r))"
    and "URL_init (sch @ ''://'' @ h) =
           Inr (HttpURL sch h (if sch = ''http'' then 80 else 443) ''/'')"
proof -
  have "split1 CHR ''/'' (h @ ''/'' @ r) = Some (h, r)"
    using split1_append [OF h(2), of r] by simp
  then show "URL_init (sch @ ''://'' @ h @ ''/'' @ r) =
           Inr (HttpURL sch h (if sch = ''http'' then 80 else 443) (''/'' @ r))"
    using URL_init_http [OF sch, of "h @ ''/'' @ r" h r] h by simp
  have "split1 CHR ''/'' (h @ ''/'') = Some (h, [])"
    using split1_append [OF h(2), of "[]"] by simp
  then show "URL_init (sch @ ''://'' @ h) =
           Inr (HttpURL sch h (if sch = ''http'' then 80 else 443) ''/'')"
    using URL_init_http [OF sch, of h h "[]"] h by simp
qed

lemma parse_explicit:
  assumes sch: "sch = ''http'' \<or> sch = ''https''"
    and h: "CHR '':'' \<notin> set h" "CHR ''/'' \<notin> set h"
    and n: "n < 65536"
  shows "URL_init (sch @ ''://'' @ h @ '':'' @ dec n @ ''/'' @ r) =
           Inr (HttpURL sch h (int n) (''/'' @ r))"
    and "URL_init (sch @ ''://'' @ h @ '':'' @ dec n) = Inr (HttpURL sch h (int n) ''/'')"
proof -
  let ?hp = "h @ '':'' @ dec n"
  have nosl: "CHR ''/'' \<notin> set ?hp" using h dec_no_sep by simp
  have col: "CHR '':'' \<in> set ?hp" by simp
  have sp: "split1 CHR '':'' ?hp = Some (h, dec n)"
    using split1_append [OF h(1), of "dec n"] by simp
  have "split1 CHR ''/'' (?hp @ ''/'' @ r) = Some (?hp, r)"
    using split1_append [OF nosl, of r] by simp
  then show "URL_init (sch @ ''://'' @ h @ '':'' @ dec n @ ''/'' @ r) =
           Inr (HttpURL sch h (int n) (''/'' @ r))"
    using URL_init_http [OF sch, of "?hp @ ''/'' @ r" ?hp r] col sp py_int_dec [OF n]
    by simp
  have "split1 CHR ''/'' (?hp @ ''/'') = Some (?hp, [])"
    using split1_append [OF nosl, of "[]"] by simp
  then show "URL_init (sch @ ''://'' @ h @ '':'' @ dec n) = Inr (HttpURL sch h (int n) ''/'')"
    using URL_init_http [OF sch, of ?hp ?hp "[]"] nosl col sp py_int_dec [OF n]
    by simp
qed

lemma URL_init_http_cases:
  assumes "URL_init s = Inr (HttpURL sch h p pa)"
  obtains ub hp path where "split1 CHR ''/'' ub = Some (hp, path)" "pa = ''/'' @ path"
    "sch = ''http'' \<or> sch = ''https''"
    "(CHR '':'' \<notin> set hp \<and> h = hp) \<or> (\<exists>pt. split1 CHR '':'' hp = Some (h, pt))"
proof -
  obtain sc b where sp: "split1 CHR '':'' s = Some (sc, b)"
    using assms by (subst (asm) URL_init.simps) (cases "split1 CHR '':'' s"; auto)
  have mem: "sc \<in> set [''http'', ''https'', ''file'', ''data'', ''view-source'']"
    using assms sp by (subst (asm) URL_init.simps) (simp split: if_splits)
  have nd: "sc \<noteq> ''data''"
  proof
    assume "sc = ''data''"
    then have "URL_init s = (case split1 CHR '','' b of
               None \<Rightarrow> Inl ValueError
             | Some (mime, d) \<Rightarrow> Inr (DataURL mime d))"
      using sp by (subst URL_init.simps) simp
    with assms show False by (auto split: option.splits)
  qed
  have nv: "sc \<noteq> ''view-source''"
  proof
    assume "sc = ''view-source''"
    then have "URL_init s = (case URL_init b of
               Inl e \<Rightarrow> Inl e
             | Inr actual_url \<Rightarrow> Inr (ViewSourceURL actual_url))"
      using sp by (subst URL_init.simps) simp
    with assms show False by (simp split: sum.splits)
  qed
  have nf: "sc \<noteq> ''file''"
  proof
    assume "sc = ''file''"
    then have "URL_init s = Inr (FileURL (if startswith b ''//'' then drop 2 b else b))"
      using sp by (subst URL_init.simps) (simp add: Let_def)
    with assms show False by simp
  qed
  from mem nd nv nf have hs: "sc = ''http'' \<or> sc = ''https''" by auto
  define b1 where "b1 = (if startswith b ''//'' then drop 2 b else b)"
  define ub where "ub = (if CHR ''/'' \<notin> set b1 then b1 @ ''/'' else b1)"
  have eq: "URL_init s =
    (case split1 CHR ''/'' ub of
       None \<Rightarrow> Inl ValueError
     | Some (host, path) \<Rightarrow>
         if CHR '':'' \<in> set host then
           (case split1 CHR '':'' host of
              None \<Rightarrow> Inl ValueError
            | Some (host', port_text) \<Rightarrow>
                (case py_int 10 port_text of
                   Inl e \<Rightarrow> Inl e
                 | Inr p \<Rightarrow> Inr (HttpURL sc host' p (''/'' @ path))))
         else Inr (HttpURL sc host (if sc = ''http'' then 80 else 443) (''/'' @ path)))"
    using sp hs unfolding b1_def ub_def
    by (subst URL_init.simps) (auto simp: Let_def)
  obtain hp path where sl: "split1 CHR ''/'' ub = Some (hp, path)"
    using assms unfolding eq by (cases "split1 CHR ''/'' ub") auto
  show ?thesis
  proof (cases "CHR '':'' \<in> set hp")
    case False
    with assms sl hs show ?thesis unfolding eq by (intro that [of ub hp path]) auto
  next
    case True
    then obtain h' pt where c: "split1 CHR '':'' hp = Some (h', pt)"
      using assms sl unfolding eq by (cases "split1 CHR '':'' hp") auto
    with True assms sl hs show ?thesis unfolding eq
      by (intro that [of ub hp path]) (auto split: sum.splits)
  qed
qed

lemma URL_init_http_shape:
  assumes "URL_init s = Inr (HttpURL sch h p pa)"
  shows "(sch = ''http'' \<or> sch = ''https'') \<and> CHR '':'' \<notin> set h \<and> CHR ''/'' \<notin> set h
           \<and> startswith pa ''/''"
proof -
  from assms obtain ub hp path where a: "split1 CHR ''/'' ub = Some (hp, path)" "pa = ''/'' @ path"
    "sch = ''http'' \<or> sch = ''https''"
    "(CHR '':'' \<notin> set hp \<and> h = hp) \<or> (\<exists>pt. split1 CHR '':'' hp = Some (h, pt))"
    by (rule URL_init_http_cases)
  from a(1) have hp: "CHR ''/'' \<notin> set hp" by (simp add: split1_SomeD)
  from a(4) have "CHR '':'' \<notin> set h \<and> CHR ''/'' \<notin> set h"
  proof
    assume "CHR '':'' \<notin> set hp \<and> h = hp"
    with hp show ?thesis by simp
  next
    assume "\<exists>pt. split1 CHR '':'' hp = Some (h, pt)"
    then obtain pt where "split1 CHR '':'' hp = Some (h, pt)" by blast
    then have "CHR '':'' \<notin> set h" "hp = h @ CHR '':'' # pt" by (simp_all add: split1_SomeD)
    with hp show ?thesis by auto
  qed
  with a(2,3) show ?thesis by (simp add: startswith_def)
qed

section \<open>Properties of the entity decoder\<close>

lemma startswith_prefix: "startswith s p \<longleftrightarrow> prefix p s"
  by (auto simp: startswith_def prefix_def) (metis append_take_drop_id)

lemma key_prefix:
  "CHR '';'' \<notin> set kb \<Longrightarrow> CHR '';'' \<notin> set tw \<Longrightarrow>
     prefix (kb @ '';'') (tw @ CHR '';'' # r) \<longleftrightarrow> tw = kb"
proof (induction kb arbitrary: tw)
  case Nil
  then show ?case by (cases tw) auto
next
  case (Cons a kb)
  then show ?case by (cases tw) auto
qed

lemma key_no_semicolon:
  "CHR '';'' \<notin> set rest \<Longrightarrow> \<not> prefix (kb @ '';'') rest"
  by (auto simp: prefix_def)

lemma decode_spec_other:
  "c \<noteq> CHR ''&'' \<Longrightarrow> decode_spec (c # rest) = c # decode_spec rest"
  by (subst decode_spec.simps) (simp add: startswith_def)

lemma decode_spec_unterminated:
  assumes "CHR '';'' \<notin> set rest"
  shows "decode_spec (CHR ''&'' # rest) = CHR ''&'' # decode_spec rest"
proof -
  have "\<not> prefix (''lt'' @ '';'') rest" "\<not> prefix (''gt'' @ '';'') rest"
    "\<not> prefix (''copy'' @ '';'') rest" "\<not> prefix (''ndash'' @ '';'') rest"
    "\<not> prefix (''amp'' @ '';'') rest"
    using assms by (rule key_no_semicolon)+
  then show ?thesis
    by (subst decode_spec.simps) (simp add: startswith_prefix)
qed

lemma decode_spec_terminated:
  assumes "CHR '';'' \<notin> set tw"
  shows "decode_spec (CHR ''&'' # tw @ CHR '';'' # r) =
           (case map_of ENTITIES (CHR ''&'' # tw @ '';'') of
              Some ch \<Rightarrow> ch @ decode_spec r
            | None \<Rightarrow> CHR ''&'' # decode_spec (tw @ CHR '';'' # r))"
proof -
  have k: "\<And>kb. CHR '';'' \<notin> set kb \<Longrightarrow> prefix (kb @ '';'') (tw @ CHR '';'' # r) \<longleftrightarrow> tw = kb"
    using assms by (simp add: key_prefix)
  have p: "prefix (''lt'' @ '';'') (tw @ CHR '';'' # r) \<longleftrightarrow> tw = ''lt''"
    "prefix (''gt'' @ '';'') (tw @ CHR '';'' # r) \<longleftrightarrow> tw = ''gt''"
    "prefix (''copy'' @ '';'') (tw @ CHR '';'' # r) \<longleftrightarrow> tw = ''copy''"
    "prefix (''ndash'' @ '';'') (tw @ CHR '';'' # r) \<longleftrightarrow> tw = ''ndash''"
    "prefix (''amp'' @ '';'') (tw @ CHR '';'' # r) \<longleftrightarrow> tw = ''amp''"
    by (rule k; simp)+
  show ?thesis
    using p by (subst decode_spec.simps) (auto simp: startswith_prefix ENTITIES_def)
qed

lemma decode_loop_spec:
  "i \<le> length tx \<Longrightarrow> decode_loop tx i result = result @ decode_spec (drop i tx)"
proof (induction tx i result rule: decode_loop.induct)
  case (1 tx i result)
  show ?case
  proof (cases "i < length tx")
    case False
    with "1.prems" show ?thesis
      by (subst decode_loop.simps) (simp add: decode_spec.simps)
  next
    case lt: True
    then have dr: "drop i tx = tx ! i # drop (i + 1) tx"
      by (simp add: Cons_nth_drop_Suc)
    let ?rest = "drop (i + 1) tx"
    show ?thesis
    proof (cases "tx ! i = CHR ''&''")
      case False
      have "decode_loop tx i result = decode_loop tx (i + 1) (result @ [tx ! i])"
        using lt False by (subst decode_loop.simps) simp
      also have "\<dots> = (result @ [tx ! i]) @ decode_spec ?rest"
        using "1.IH"(4) [OF lt False] lt by simp
      finally show ?thesis
        using False by (simp add: dr decode_spec_other)
    next
      case amp: True
      show ?thesis
      proof (cases "CHR '';'' \<in> set ?rest")
        case False
        then have ff: "find_from CHR '';'' tx (i + 1) = None" by (simp add: find_from_def)
        have "decode_loop tx i result = decode_loop tx (i + 1) (result @ [tx ! i])"
          using lt amp ff by (subst decode_loop.simps) simp
        also have "\<dots> = (result @ [tx ! i]) @ decode_spec ?rest"
          using "1.IH"(1) [OF lt amp ff] lt by simp
        finally show ?thesis
          using False amp by (simp add: dr decode_spec_unterminated)
      next
        case True
        define tw where "tw = takeWhile (\<lambda>x. x \<noteq> CHR '';'') ?rest"
        define r where "r = tl (dropWhile (\<lambda>x. x \<noteq> CHR '';'') ?rest)"
        have tw: "CHR '';'' \<notin> set tw" by (auto simp: tw_def dest: set_takeWhileD)
        have "split1 CHR '';'' ?rest = Some (tw, r)"
          using True by (simp add: split1_def tw_def r_def)
        then have rest: "?rest = tw @ CHR '';'' # r" by (simp add: split1_SomeD)
        have ff: "find_from CHR '';'' tx (i + 1) = Some (i + 1 + length tw)"
          using True by (simp add: find_from_def tw_def)
        have dr': "drop i tx = CHR ''&'' # tw @ CHR '';'' # r"
          using dr amp rest by simp
        have ent: "take (i + 1 + length tw + 1 - i) (drop i tx) = CHR ''&'' # tw @ '';''"
          by (simp add: dr')
        have nxt: "drop (i + 1 + length tw + 1) tx = r"
        proof -
          have ix: "i + 1 + length tw + 1 = (length tw + 1) + (i + 1)" by simp
          have "drop (i + 1 + length tw + 1) tx = drop (length tw + 1) ?rest"
            unfolding ix by (simp only: drop_drop)
          also have "\<dots> = drop (length tw + 1) (tw @ CHR '';'' # r)"
            using rest by simp
          also have "\<dots> = r" by simp
          finally show ?thesis .
        qed
        have le: "i + 1 + length tw + 1 \<le> length tx"
        proof -
          have "length ?rest = length tw + 1 + length r" by (subst rest) simp
          then show ?thesis using lt by simp
        qed
        show ?thesis
        proof (cases "map_of ENTITIES (CHR ''&'' # tw @ '';'')")
          case None
          have "decode_loop tx i result = decode_loop tx (i + 1) (result @ [tx ! i])"
            using lt amp ff ent None by (subst decode_loop.simps) simp
          also have "\<dots> = (result @ [tx ! i]) @ decode_spec ?rest"
            using "1.IH"(2) [OF lt amp ff refl] ent None lt by simp
          finally show ?thesis
            using decode_spec_terminated [OF tw, of r] None amp dr' rest by simp
        next
          case (Some ch)
          have "decode_loop tx i result = decode_loop tx (i + 1 + length tw + 1) (result @ ch)"
            using lt amp ff ent Some by (subst decode_loop.simps) simp
          also have "\<dots> = (result @ ch) @ decode_spec r"
            using "1.IH"(3) [OF lt amp ff refl] ent Some le nxt by simp
          finally show ?thesis
            using decode_spec_terminated [OF tw, of r] Some dr' by simp
        qed
      qed
    qed
  qed
qed

lemma reserialize_parses:
  assumes sch: "sch = ''http'' \<or> sch = ''https''"
    and h: "CHR '':'' \<notin> set h" "CHR ''/'' \<notin> set h"
    and n: "n < 65536"
  shows "URL_init (reserialize (HttpURL sch h (int n) (''/'' @ r)))
           = Inr (HttpURL sch h (int n) (''/'' @ r))"
  using parse_explicit(1) [OF sch h n, of r] by (simp add: reserialize_def)

text \<open>
  Claim C7. Let the scheme be http or https, the host a text without colon and slash,
  the port a number below 65536 written in decimal, and the rest any text. Each of the
  four forms scheme://host/rest, scheme://host, scheme://host:port/rest and
  scheme://host:port parses to an object whose host is that host (no port fragment), whose
  port is the explicit port or else 80 for http and 443 for https, and whose path is the
  rest after a leading slash (the path "/" when no slash follows the host); writing host,
  port and path back and parsing again gives the same object. For every text at all that
  parses to an http or https object, the host has no colon and no slash and the path is
  not empty and starts with a slash.
\<close>

theorem url_parse_roundtrip:
  assumes sch: "sch = ''http'' \<or> sch = ''https''"
    and h: "CHR '':'' \<notin> set h" "CHR ''/'' \<notin> set h"
    and n: "n < 65536"
  shows "parses_roundtrip (sch @ ''://'' @ h @ ''/'' @ r)
           (HttpURL sch h (if sch = ''http'' then 80 else 443) (''/'' @ r))
       \<and> parses_roundtrip (sch @ ''://'' @ h)
           (HttpURL sch h (if sch = ''http'' then 80 else 443) ''/'')
       \<and> parses_roundtrip (sch @ ''://'' @ h @ '':'' @ dec n @ ''/'' @ r)
           (HttpURL sch h (int n) (''/'' @ r))
       \<and> parses_roundtrip (sch @ ''://'' @ h @ '':'' @ dec n)
           (HttpURL sch h (int n) ''/'')
       \<and> (\<forall>s sch' h' p pa. URL_init s = Inr (HttpURL sch' h' p pa) \<longrightarrow>
             CHR '':'' \<notin> set h' \<and> CHR ''/'' \<notin> set h' \<and> pa \<noteq> [] \<and> startswith pa ''/'')"
proof -
  have d: "reserialize (HttpURL sch h (if sch = ''http'' then 80 else 443) (''/'' @ q))
             = sch @ ''://'' @ h @ '':'' @ dec (if sch = ''http'' then 80 else 443) @ ''/'' @ q" for q
    by (simp add: reserialize_def)
  have dn: "(if sch = ''http'' then 80 else 443) < (65536::nat)" by simp
  have rd: "URL_init (reserialize (HttpURL sch h (if sch = ''http'' then 80 else 443) (''/'' @ q)))
           = Inr (HttpURL sch h (if sch = ''http'' then 80 else 443) (''/'' @ q))" for q
    using reserialize_parses [OF sch h dn, of q] by (simp split: if_splits)
  have shape: "\<forall>s sch' h' p pa. URL_init s = Inr (HttpURL sch' h' p pa) \<longrightarrow>
             CHR '':'' \<notin> set h' \<and> CHR ''/'' \<notin> set h' \<and> pa \<noteq> [] \<and> startswith pa ''/''"
    using URL_init_http_shape by (fastforce simp: startswith_def)
  show ?thesis
    using parse_default [OF sch h] parse_explicit [OF sch h n]
      reserialize_parses [OF sch h n] rd [of r] rd [of "[]"] shape
    unfolding parses_roundtrip_def by simp
qed

text \<open>The theorem at http://example.org with port 8080 and rest a/b.\<close>

theorem url_parse_roundtrip_witness:
  "(''http'' = ''http'' \<or> ''http'' = ''https'')
   \<and> CHR '':'' \<notin> set ''example.org'' \<and> CHR ''/'' \<notin> set ''example.org'' \<and> (8080::nat) < 65536
   \<and> parses_roundtrip ''http://example.org/a/b'' (HttpURL ''http'' ''example.org'' 80 ''/a/b'')
   \<and> parses_roundtrip ''http://example.org'' (HttpURL ''http'' ''example.org'' 80 ''/'')
   \<and> parses_roundtrip (''http://example.org:'' @ dec 8080 @ ''/a/b'')
        (HttpURL ''http'' ''example.org'' 8080 ''/a/b'')
   \<and> parses_roundtrip (''http://example.org:'' @ dec 8080) (HttpURL ''http'' ''example.org'' 8080 ''/'')
   \<and> dec 8080 = ''8080''"
proof -
  have d: "dec 8080 = ''8080''" by (simp add: dec.simps char_of_eq_iff)
  show ?thesis
    using url_parse_roundtrip [of "''http''" "''example.org''" 8080 "''a/b''"] d by simp
qed

lemma decode_spec_no_semicolon: "CHR '';'' \<notin> set tx \<Longrightarrow> decode_spec tx = tx"
proof (induction tx)
  case Nil
  show ?case by (simp add: decode_spec.simps)
next
  case (Cons c tx)
  then show ?case
    by (cases "c = CHR ''&''") (simp_all add: decode_spec_other decode_spec_unterminated)
qed

lemma decode_spec_no_ampersand: "CHR ''&'' \<notin> set tx \<Longrightarrow> decode_spec tx = tx"
proof (induction tx)
  case Nil
  show ?case by (simp add: decode_spec.simps)
next
  case (Cons c tx)
  then have "c \<noteq> CHR ''&''" and "decode_spec tx = tx" by auto
  then show ?case by (simp add: decode_spec_other)
qed

lemma decode_entities_spec: "decode_entities tx = decode_spec tx"
  using decode_loop_spec [of 0 tx "[]"] by (simp add: decode_entities_def)

text \<open>
  Claim C8. \<open>decode_entities\<close> computes the decoder of the specification: exactly
  the five table entities are replaced by their characters and everything else,
  unrecognised and unterminated entities included, is copied. In particular
  \<^verbatim>\<open>a &lt;b&gt; c\<close> becomes \<^verbatim>\<open>a <b> c\<close>, \<^verbatim>\<open>&foo\<close> stays as it is, an unknown
  entity such as \<^verbatim>\<open>&nbsp;\<close> keeps its ampersand and semicolon, and a text without
  semicolon, or without ampersand, is returned unchanged.
\<close>

theorem decode_entities_table:
  "decode_entities tx = decode_spec tx
   \<and> decode_entities ''a &lt;b&gt; c'' = ''a <b> c''
   \<and> decode_entities ''&foo'' = ''&foo''
   \<and> decode_entities ''&lt;&gt;&copy;&ndash;&amp;''
        = [CHR ''<'', CHR ''>'', CHR 0xC2, CHR 0xA9, CHR 0xE2, CHR 0x80, CHR 0x93, CHR ''&'']
   \<and> decode_entities ''&nbsp;&amp;lt;'' = ''&nbsp;&lt;''
   \<and> (CHR '';'' \<notin> set tx \<longrightarrow> decode_entities tx = tx)
   \<and> (CHR ''&'' \<notin> set tx \<longrightarrow> decode_entities tx = tx)"
proof -
  have e1: "decode_entities ''a &lt;b&gt; c'' = ''a <b> c''"
    by (simp add: decode_entities_def decode_loop.simps find_from_def ENTITIES_def)
  have e2: "decode_entities ''&foo'' = ''&foo''"
    by (simp add: decode_entities_def decode_loop.simps find_from_def ENTITIES_def)
  have e3: "decode_entities ''&lt;&gt;&copy;&ndash;&amp;''
        = [CHR ''<'', CHR ''>'', CHR 0xC2, CHR 0xA9, CHR 0xE2, CHR 0x80, CHR 0x93, CHR ''&'']"
    by (simp add: decode_entities_def decode_loop.simps find_from_def ENTITIES_def)
  have e4: "decode_entities ''&nbsp;&amp;lt;'' = ''&nbsp;&lt;''"
    by (simp add: decode_entities_def decode_loop.simps find_from_def ENTITIES_def)
  show ?thesis
    using e1 e2 e3 e4 decode_entities_spec decode_spec_no_semicolon decode_spec_no_ampersand
    by simp
qed

text \<open>The theorem at a text with two unterminated entities.\<close>

theorem decode_entities_table_witness:
  "CHR '';'' \<notin> set ''&foo & bar'' \<and> decode_entities ''&foo & bar'' = ''&foo & bar''
   \<and> decode_spec ''&foo & bar'' = ''&foo & bar''"
proof -
  have "CHR '';'' \<notin> set ''&foo & bar''" by simp
  with decode_entities_table [of "''&foo & bar''"] show ?thesis by metis
qed

definition extends :: "world \<Rightarrow> world \<Rightarrow> bool" where
  "extends w w' =
     ((\<forall>k s. open_sockets w k = Some s \<longrightarrow> open_sockets w' k = Some s)
      \<and> prefix (events w) (events w'))"

lemma extends_refl: "extends w w"
  by (simp add: extends_def)

lemma extends_trans: "extends a b \<Longrightarrow> extends b c \<Longrightarrow> extends a c"
  unfolding extends_def by (meson prefix_order.trans)

lemma obtain_socket_pooled:
  "open_sockets w (host, port) = Some s \<Longrightarrow> obtain_socket env sch host port w = (Inr s, w)"
  by (simp add: obtain_socket_def)

lemma obtain_socket_extends: "extends w (snd (obtain_socket env sch host port w))"
  by (auto simp: obtain_socket_def extends_def Let_def split: option.splits)

lemma obtain_socket_cache: "cache (snd (obtain_socket env sch host port w)) = cache w"
  by (auto simp: obtain_socket_def Let_def split: option.splits)

lemma obtain_socket_ticks: "ticks (snd (obtain_socket env sch host port w)) = ticks w"
  by (auto simp: obtain_socket_def Let_def split: option.splits)

lemma cache_lookup_frame:
  "open_sockets (snd (cache_lookup url now w)) = open_sockets w
   \<and> events (snd (cache_lookup url now w)) = events w
   \<and> ticks (snd (cache_lookup url now w)) = ticks w"
  by (auto simp: cache_lookup_def split: option.splits)

lemma send_request_world:
  "snd (send_request env s host path w)
     = w\<lparr>events := events w @ [Send s (request_text host path), Recv s]\<rparr>"
  by (simp add: send_request_def Let_def)

lemma http_begin_extends: "extends w (snd (http_begin env sch host port path w))"
proof (cases "obtain_socket env sch host port w")
  case (Pair r w1)
  have e1: "extends w w1" using obtain_socket_extends [of w env sch host port] Pair by simp
  show ?thesis
  proof (cases r)
    case (Inl e)
    with Pair e1 show ?thesis by (simp add: http_begin_def)
  next
    case (Inr s)
    let ?url = "sch @ ''://'' @ host @ path"
    let ?w2 = "w1\<lparr>ticks := ticks w1 + 1\<rparr>"
    obtain hit w3 where cl: "cache_lookup ?url (clock env (ticks w1)) ?w2 = (hit, w3)"
      by (cases "cache_lookup ?url (clock env (ticks w1)) ?w2")
    have f: "open_sockets w3 = open_sockets w1" "events w3 = events w1"
      using cache_lookup_frame [of ?url "clock env (ticks w1)" ?w2] cl by simp_all
    then have e3: "extends w w3" using e1 by (simp add: extends_def)
    show ?thesis
    proof (cases hit)
      case None
      have "extends w3 (snd (send_request env s host path w3))"
        by (simp add: send_request_world extends_def)
      with e3 have "extends w (snd (send_request env s host path w3))"
        by (rule extends_trans)
      with Pair Inr cl None show ?thesis by (simp add: http_begin_def time_def)
    next
      case (Some body)
      with Pair Inr cl e3 show ?thesis by (simp add: http_begin_def time_def)
    qed
  qed
qed

lemma cache_insert_frame:
  "open_sockets (snd (cache_insert env url body hdrs w)) = open_sockets w
   \<and> events (snd (cache_insert env url body hdrs w)) = events w"
  by (auto simp: cache_insert_def time_def Let_def split: sum.splits option.splits)

lemma cache_insert_frameD:
  "cache_insert env url body hdrs w = (r, w1) \<Longrightarrow>
     open_sockets w1 = open_sockets w \<and> events w1 = events w"
  using cache_insert_frame [of env url body hdrs w] by simp

lemma http_finish_frame:
  "open_sockets (snd (http_finish env url st hdrs response w)) = open_sockets w
   \<and> events (snd (http_finish env url st hdrs response w)) = events w"
  by (auto simp: http_finish_def split: sum.splits option.splits prod.splits if_splits
           dest: cache_insert_frameD)

lemma http_finish_extends: "extends w (snd (http_finish env url st hdrs response w))"
  using http_finish_frame [of env url st hdrs response w] by (simp add: extends_def)

lemma request_extends: "extends w (snd (request env depth u redirects w))"
proof (induction env depth u redirects w rule: request.induct)
  case (1 env depth actual_url redirects w)
  then show ?case by (cases depth) (simp_all add: extends_refl)
next
  case (2 env depth path redirects w)
  show ?case by (simp add: extends_refl)
next
  case (3 env depth mime d redirects w)
  show ?case by (simp add: extends_refl)
next
  case (4 env depth sch host port path redirects w)
  obtain hd w1 where hb: "http_begin env sch host port path w = (hd, w1)"
    by (cases "http_begin env sch host port path w")
  have e1: "extends w w1" using http_begin_extends [of w env sch host port path] hb by simp
  show ?case
  proof (cases hd)
    case (Raised e)
    with hb e1 show ?thesis by simp
  next
    case (CacheHit body)
    with hb e1 show ?thesis by simp
  next
    case (Head status hdrs response)
    show ?thesis
    proof (cases "py_int 10 status")
      case (Inl e)
      with hb Head e1 show ?thesis by simp
    next
      case (Inr st)
      show ?thesis
      proof (cases "300 \<le> st \<and> st < 400")
        case False
        have "extends w1 (snd (http_finish env (sch @ ''://'' @ host @ path) st hdrs response w1))"
          by (rule http_finish_extends)
        with e1 have "extends w (snd (http_finish env (sch @ ''://'' @ host @ path) st hdrs response w1))"
          by (rule extends_trans)
        with hb Head Inr False show ?thesis by auto
      next
        case True
        show ?thesis
        proof (cases "redirect_location sch host path hdrs redirects")
          case (Inl e)
          with hb Head Inr True e1 show ?thesis by simp
        next
          case loc: (Inr loc)
          show ?thesis
          proof (cases "URL_init loc")
            case (Inl e)
            with hb Head Inr True loc e1 show ?thesis by simp
          next
            case ru: (Inr redirect_url)
            show ?thesis
            proof (cases depth)
              case 0
              with hb Head Inr True loc ru e1 show ?thesis by simp
            next
              case (Suc d)
              have "extends w1 (snd (request env d redirect_url (redirects + 1) w1))"
                using "4.IH" [OF hb [symmetric] Head Inr True loc ru Suc] .
              with e1 have "extends w (snd (request env d redirect_url (redirects + 1) w1))"
                by (rule extends_trans)
              with hb Head Inr True loc ru Suc show ?thesis by simp
            qed
          qed
        qed
      qed
    qed
  qed
qed

lemmas eval_defs =
  http_begin_def obtain_socket_def time_def cache_lookup_def send_request_def
  py_int_def is_ascii_def startswith_def valid_digits_def digit_value_def horner_def
  int_max_str_digits_def is_space_int_def http_finish_def read_body_def reader_read_def
  PY_SSIZE_T_MAX_def cache_insert_def strip_ascii is_space_def float_overflow_def Let_def

lemmas head_defs =
  read_head_def readline_def split1_def decode_line_def is_ascii_def read_headers.simps
  casefold_def casefold_char_def strip_ascii is_space_def

lemma read_head_page:
  "read_head page_response =
     Head ''200'' [''cache-control'' \<mapsto> ''max-age=60'', ''content-length'' \<mapsto> ''2''] ''hi''"
  by (simp add: page_response_def head_defs)

lemma scheme_local:
  assumes "URL_init s = Inr u" and "scheme u = ''file'' \<or> scheme u = ''data''"
  shows "(\<exists>p. u = FileURL p) \<or> (\<exists>m d. u = DataURL m d)"
proof (cases u)
  case (HttpURL sch h p pa)
  with assms(1) have "sch = ''http'' \<or> sch = ''https''"
    using URL_init_http_shape by blast
  with HttpURL assms(2) show ?thesis by auto
qed (use assms(2) in auto)

text \<open>
  Claim C10. For a file URL the method returns what reading the file gives (its contents,
  or the exception of the read), and for a data URL the literal inline data; in both
  cases the world after the call is the world before it: the connection pool, the cache,
  the trace of network events and the clock count are untouched. This holds for every
  parsed URL whose scheme is file or data.
\<close>

theorem request_local_frame:
  "request env depth (FileURL path) redirects w = (read_file env path, w)
   \<and> request env depth (DataURL mime d) redirects w = (Inr d, w)
   \<and> (URL_init s = Inr u \<and> (scheme u = ''file'' \<or> scheme u = ''data'') \<longrightarrow>
        snd (request env depth u redirects w) = w)"
  using scheme_local [of s u] by auto

text \<open>The theorem at a readable file and at a data URL.\<close>

theorem request_local_frame_witness:
  "URL_init ''file:///tmp/a.txt'' = Inr (FileURL ''/tmp/a.txt'')
   \<and> scheme (FileURL ''/tmp/a.txt'') = ''file''
   \<and> request demo_env 0 (FileURL ''/tmp/a.txt'') 0 w_fresh = (Inr ''abc'', w_fresh)
   \<and> request demo_env 0 (DataURL ''text/html'' ''Hello'') 0 w_fresh = (Inr ''Hello'', w_fresh)
   \<and> snd (request demo_env 0 (FileURL ''/tmp/a.txt'') 0 w_fresh) = w_fresh"
proof -
  have p: "URL_init ''file:///tmp/a.txt'' = Inr (FileURL ''/tmp/a.txt'')"
    by (simp add: URL_init.simps split1_def startswith_def)
  have r: "read_file demo_env ''/tmp/a.txt'' = Inr ''abc''" by (simp add: demo_env_def)
  show ?thesis
    using request_local_frame [of demo_env 0 "''/tmp/a.txt''" 0 w_fresh "''text/html''" "''Hello''"
        "''file:///tmp/a.txt''" "FileURL ''/tmp/a.txt''"] p r
    by simp
qed

lemma http_begin_pooled_miss:
  assumes "open_sockets w (host, port) = Some s"
    and "cache w (sch @ ''://'' @ host @ path) = None"
  shows "http_begin env sch host port path w =
           send_request env s host path (w\<lparr>ticks := ticks w + 1\<rparr>)"
  using assms by (simp add: http_begin_def obtain_socket_def time_def cache_lookup_def)

text \<open>
  Claim C2, as amended. The pool has one entry per key \<^verbatim>\<open>(host, port)\<close>, an existing entry
  is never replaced or removed by a request, and a pooled socket is handed out for every
  request to its key whatever the scheme of the URL: when the cache does not answer, the
  request is sent on that socket.
\<close>

theorem pool_reuse_any_scheme:
  "(open_sockets w (host, port) = Some s \<longrightarrow> obtain_socket env sch host port w = (Inr s, w))
   \<and> (open_sockets w (host, port) = Some s \<and> cache w (sch @ ''://'' @ host @ path) = None \<longrightarrow>
        events (snd (http_begin env sch host port path w))
          = events w @ [Send s (request_text host path), Recv s])
   \<and> (open_sockets w k = Some s' \<longrightarrow>
        open_sockets (snd (request env depth u redirects w)) k = Some s')"
proof -
  have "extends w (snd (request env depth u redirects w))" by (rule request_extends)
  then have 3: "open_sockets w k = Some s' \<longrightarrow>
        open_sockets (snd (request env depth u redirects w)) k = Some s'"
    unfolding extends_def by blast
  have 2: "open_sockets w (host, port) = Some s \<and> cache w (sch @ ''://'' @ host @ path) = None \<longrightarrow>
        events (snd (http_begin env sch host port path w))
          = events w @ [Send s (request_text host path), Recv s]"
    by (simp add: http_begin_pooled_miss send_request_world)
  show ?thesis using 2 3 by (simp add: obtain_socket_pooled)
qed

text \<open>The theorem at a pool that holds a TLS socket for port 443 and an http URL.\<close>

theorem pool_reuse_any_scheme_witness:
  "open_sockets w_tls (''h'', 443) = Some tls_sock
   \<and> cache w_tls (''http'' @ ''://'' @ ''h'' @ ''/'') = None
   \<and> tls tls_sock
   \<and> obtain_socket demo_env ''http'' ''h'' 443 w_tls = (Inr tls_sock, w_tls)
   \<and> events (snd (http_begin demo_env ''http'' ''h'' 443 ''/'' w_tls))
        = events w_tls @ [Send tls_sock (request_text ''h'' ''/''), Recv tls_sock]
   \<and> open_sockets (snd (request demo_env 0 (HttpURL ''http'' ''h'' 443 ''/'') 0 w_tls)) (''h'', 443)
        = Some tls_sock"
proof -
  have a: "open_sockets w_tls (''h'', 443) = Some tls_sock" by (simp add: w_tls_def)
  have b: "cache w_tls (''http'' @ ''://'' @ ''h'' @ ''/'') = None" by (simp add: w_tls_def)
  have c: "tls tls_sock" by (simp add: tls_sock_def)
  show ?thesis
    using pool_reuse_any_scheme [of w_tls "''h''" 443 tls_sock demo_env "''http''" "''/''"
        "(''h'', 443)" tls_sock 0 "HttpURL ''http'' ''h'' 443 ''/''" 0] a b c
    by simp
qed

text \<open>
  Claim C2 as stated fails: after a fetch of \<^verbatim>\<open>https://h/\<close> the pool holds the
  TLS-wrapped socket for \<^verbatim>\<open>(h, 443)\<close>, and the fetch of \<^verbatim>\<open>http://h:443/\<close> sends its
  request on that same socket.
\<close>

theorem tls_socket_reused_for_http:
  "URL_init ''https://h/'' = Inr (HttpURL ''https'' ''h'' 443 ''/'')
   \<and> URL_init ''http://h:443/'' = Inr (HttpURL ''http'' ''h'' 443 ''/'')
   \<and> open_sockets (snd (request demo_env 0 (HttpURL ''https'' ''h'' 443 ''/'') 0 w_fresh)) (''h'', 443)
        = Some tls_sock
   \<and> tls tls_sock
   \<and> events (snd (request demo_env 0 (HttpURL ''http'' ''h'' 443 ''/'') 0
               (snd (request demo_env 0 (HttpURL ''https'' ''h'' 443 ''/'') 0 w_fresh))))
        = [Connect ''h'' 443, Handshake ''h'' 443,
           Send tls_sock (request_text ''h'' ''/''), Recv tls_sock,
           Send tls_sock (request_text ''h'' ''/''), Recv tls_sock]"
proof -
  have p1: "URL_init ''https://h/'' = Inr (HttpURL ''https'' ''h'' 443 ''/'')"
    by (simp add: URL_init.simps split1_def startswith_def)
  have p2: "URL_init ''http://h:443/'' = Inr (HttpURL ''http'' ''h'' 443 ''/'')"
    by (simp add: URL_init.simps split1_def startswith_def py_int_def is_ascii_def
        valid_digits_def digit_value_def horner_def int_max_str_digits_def is_space_int_def)
  have r1: "request demo_env 0 (HttpURL ''https'' ''h'' 443 ''/'') 0 w_fresh =
     (Inr ''hi'', \<lparr>open_sockets = [(''h'', 443) \<mapsto> tls_sock],
        cache = [''https://h/'' \<mapsto> (''hi'', Some 1060)],
        events = [Connect ''h'' 443, Handshake ''h'' 443,
                  Send tls_sock (request_text ''h'' ''/''), Recv tls_sock], ticks = 2\<rparr>)"
    by (simp add: eval_defs demo_env_def w_fresh_def tls_sock_def read_head_page)
  have r2: "events (snd (request demo_env 0 (HttpURL ''http'' ''h'' 443 ''/'') 0
        \<lparr>open_sockets = [(''h'', 443) \<mapsto> tls_sock],
        cache = [''https://h/'' \<mapsto> (''hi'', Some 1060)],
        events = [Connect ''h'' 443, Handshake ''h'' 443,
                  Send tls_sock (request_text ''h'' ''/''), Recv tls_sock], ticks = 2\<rparr>))
      = [Connect ''h'' 443, Handshake ''h'' 443,
           Send tls_sock (request_text ''h'' ''/''), Recv tls_sock,
           Send tls_sock (request_text ''h'' ''/''), Recv tls_sock]"
    by (simp add: eval_defs demo_env_def read_head_page)
  show ?thesis using p1 p2 r1 r2 by (simp add: tls_sock_def)
qed

lemma obtain_socket_frame:
  assumes "obtain_socket env sch host port w = (r, w1)"
  shows "cache w1 = cache w" and "ticks w1 = ticks w"
  using obtain_socket_cache [of env sch host port w] obtain_socket_ticks [of env sch host port w]
    assms by simp_all

lemma obtain_socket_events:
  "events (snd (obtain_socket env sch host port w)) =
     events w @ (if open_sockets w (host, port) = None
                 then Connect host port #
                      (if reachable env host port \<and> sch = ''https''
                       then [Handshake host port] else [])
                 else [])"
  by (auto simp: obtain_socket_def Let_def split: option.splits)

lemma obtain_socket_cache_update:
  "obtain_socket env sch host port (w\<lparr>cache := c\<rparr>) =
     (fst (obtain_socket env sch host port w), (snd (obtain_socket env sch host port w))\<lparr>cache := c\<rparr>)"
  by (auto simp: obtain_socket_def Let_def split: option.splits)

lemma http_begin_failed:
  "obtain_socket env sch host port w = (Inl e, w1) \<Longrightarrow>
     http_begin env sch host port path w = (Raised e, w1)"
  by (simp add: http_begin_def)

lemma http_begin_hit:
  assumes "obtain_socket env sch host port w = (Inr s, w1)"
    and "cache w (sch @ ''://'' @ host @ path) = Some (body, expiry)"
    and "expiry = None \<or> (\<exists>t. expiry = Some t \<and> clock env (ticks w) < t)"
  shows "http_begin env sch host port path w = (CacheHit body, w1\<lparr>ticks := ticks w1 + 1\<rparr>)"
  using assms obtain_socket_frame [OF assms(1)]
  by (auto simp: http_begin_def time_def cache_lookup_def)

lemma http_begin_expired:
  assumes "obtain_socket env sch host port w = (Inr s, w1)"
    and "cache w (sch @ ''://'' @ host @ path) = Some (body, Some t)"
    and "t \<le> clock env (ticks w)"
  shows "http_begin env sch host port path w =
           send_request env s host path
             (w1\<lparr>ticks := ticks w1 + 1, cache := (cache w1)(sch @ ''://'' @ host @ path := None)\<rparr>)"
  using assms obtain_socket_frame [OF assms(1)]
  by (auto simp: http_begin_def time_def cache_lookup_def)

lemma http_begin_miss:
  assumes "obtain_socket env sch host port w = (Inr s, w1)"
    and "cache w (sch @ ''://'' @ host @ path) = None"
  shows "http_begin env sch host port path w =
           send_request env s host path (w1\<lparr>ticks := ticks w1 + 1\<rparr>)"
  using assms obtain_socket_frame [OF assms(1)]
  by (auto simp: http_begin_def time_def cache_lookup_def)

lemma request_after_begin:
  "extends (snd (http_begin env sch host port path w))
     (snd (request env depth (HttpURL sch host port path) redirects w))"
proof -
  obtain hd w1 where hb: "http_begin env sch host port path w = (hd, w1)"
    by (cases "http_begin env sch host port path w")
  show ?thesis
  proof (cases hd)
    case (Raised e)
    with hb show ?thesis by (simp add: extends_refl)
  next
    case (CacheHit body)
    with hb show ?thesis by (simp add: extends_refl)
  next
    case (Head status hdrs response)
    show ?thesis
    proof (cases "py_int 10 status")
      case (Inl e)
      with hb Head show ?thesis by (simp add: extends_refl)
    next
      case (Inr st)
      show ?thesis
      proof (cases "300 \<le> st \<and> st < 400")
        case False
        with hb Head Inr show ?thesis by (auto simp: http_finish_extends)
      next
        case True
        with hb Head Inr show ?thesis
          by (auto simp: extends_refl request_extends split: sum.splits nat.splits)
      qed
    qed
  qed
qed

text \<open>
  Claim C4, as amended. When the cache holds an unexpired entry under the key
  scheme://host/path of an http or https URL, the method returns the cached body without
  framing or sending a request and without reading a response, and leaves the cache as
  it is. The connection for \<^verbatim>\<open>(host, port)\<close> is obtained first all the same: with a
  pooled socket there is no network event at all; without one, a connection is opened
  (and wrapped for https) before the cache is looked at, and when that fails the method
  raises instead of returning the cached body.
\<close>

theorem cache_hit_no_transfer:
  assumes "cache w (sch @ ''://'' @ host @ path) = Some (body, expiry)"
    and "expiry = None \<or> (\<exists>t. expiry = Some t \<and> clock env (ticks w) < t)"
  shows "(\<forall>s. open_sockets w (host, port) = Some s \<longrightarrow>
            request env depth (HttpURL sch host port path) redirects w
              = (Inr body, w\<lparr>ticks := ticks w + 1\<rparr>))
       \<and> (\<forall>s w1. obtain_socket env sch host port w = (Inr s, w1) \<longrightarrow>
            request env depth (HttpURL sch host port path) redirects w
              = (Inr body, w1\<lparr>ticks := ticks w1 + 1\<rparr>))
       \<and> (\<forall>e w1. obtain_socket env sch host port w = (Inl e, w1) \<longrightarrow>
            request env depth (HttpURL sch host port path) redirects w = (Inl e, w1))
       \<and> events (snd (request env depth (HttpURL sch host port path) redirects w))
           = events w @ (if open_sockets w (host, port) = None
                         then Connect host port #
                              (if reachable env host port \<and> sch = ''https''
                               then [Handshake host port] else [])
                         else [])
       \<and> cache (snd (request env depth (HttpURL sch host port path) redirects w)) = cache w"
proof -
  have ok: "request env depth (HttpURL sch host port path) redirects w
              = (Inr body, w1\<lparr>ticks := ticks w1 + 1\<rparr>)"
    if "obtain_socket env sch host port w = (Inr s, w1)" for s w1
    using http_begin_hit [OF that assms] by simp
  have bad: "request env depth (HttpURL sch host port path) redirects w = (Inl e, w1)"
    if "obtain_socket env sch host port w = (Inl e, w1)" for e w1
    using http_begin_failed [OF that] by simp
  have pooled: "request env depth (HttpURL sch host port path) redirects w
              = (Inr body, w\<lparr>ticks := ticks w + 1\<rparr>)"
    if "open_sockets w (host, port) = Some s" for s
    using ok [OF obtain_socket_pooled [OF that]] .
  obtain r w1 where os: "obtain_socket env sch host port w = (r, w1)"
    by (cases "obtain_socket env sch host port w")
  have ev: "events (snd (request env depth (HttpURL sch host port path) redirects w)) = events w1"
    and ca: "cache (snd (request env depth (HttpURL sch host port path) redirects w)) = cache w"
    using os ok bad obtain_socket_frame [OF os] by (cases r; simp)+
  have "events w1 = events w @ (if open_sockets w (host, port) = None
                         then Connect host port #
                              (if reachable env host port \<and> sch = ''https''
                               then [Handshake host port] else [])
                         else [])"
    using obtain_socket_events [of env sch host port w] os by simp
  with ev ca ok bad pooled show ?thesis by simp
qed

lemma fetch_8080:
  "request demo_env 0 (HttpURL ''http'' ''h'' 8080 ''/x'') 0 w_fresh = (Inr ''hi'', w_cached)"
  by (simp add: eval_defs demo_env_def w_fresh_def w_cached_def plain_sock_def read_head_page)

text \<open>
  The theorem at the cached page and its pooled socket.
\<close>

theorem cache_hit_no_transfer_witness:
  "cache w_cached (''http'' @ ''://'' @ ''h'' @ ''/x'') = Some (''hi'', Some 1060)
   \<and> clock demo_env (ticks w_cached) < 1060
   \<and> open_sockets w_cached (''h'', 8080) = Some plain_sock
   \<and> request demo_env 0 (HttpURL ''http'' ''h'' 8080 ''/x'') 0 w_cached
        = (Inr ''hi'', w_cached\<lparr>ticks := ticks w_cached + 1\<rparr>)
   \<and> events (snd (request demo_env 0 (HttpURL ''http'' ''h'' 8080 ''/x'') 0 w_cached))
        = events w_cached"
proof -
  have a: "cache w_cached (''http'' @ ''://'' @ ''h'' @ ''/x'') = Some (''hi'', Some 1060)"
    by (simp add: w_cached_def)
  have b: "Some (1060::real) = None \<or> (\<exists>t. Some 1060 = Some t \<and> clock demo_env (ticks w_cached) < t)"
    by (simp add: demo_env_def)
  have c: "open_sockets w_cached (''h'', 8080) = Some plain_sock" by (simp add: w_cached_def)
  show ?thesis
    using cache_hit_no_transfer [OF a b, of 8080 0 0] a c by (simp add: demo_env_def)
qed

text \<open>
  Claim C4 as stated fails: after \<^verbatim>\<open>http://h:8080/x\<close> was fetched and cached, the fetch
  of \<^verbatim>\<open>http://h:9090/x\<close> hits the same unexpired cache entry and returns its body, yet
  it opens a connection to port 9090 first; and towards the unreachable port 7070 the
  method raises although the entry is there.
\<close>

theorem cache_hit_opens_connection:
  "cache (snd (request demo_env 0 (HttpURL ''http'' ''h'' 8080 ''/x'') 0 w_fresh)) ''http://h/x''
     = Some (''hi'', Some 1060)
   \<and> clock demo_env (ticks (snd (request demo_env 0 (HttpURL ''http'' ''h'' 8080 ''/x'') 0 w_fresh))) < 1060
   \<and> fst (request demo_env 0 (HttpURL ''http'' ''h'' 9090 ''/x'') 0
            (snd (request demo_env 0 (HttpURL ''http'' ''h'' 8080 ''/x'') 0 w_fresh))) = Inr ''hi''
   \<and> events (snd (request demo_env 0 (HttpURL ''http'' ''h'' 9090 ''/x'') 0
               (snd (request demo_env 0 (HttpURL ''http'' ''h'' 8080 ''/x'') 0 w_fresh))))
        = [Connect ''h'' 8080, Send plain_sock (request_text ''h'' ''/x''), Recv plain_sock,
           Connect ''h'' 9090]
   \<and> request demo_env 0 (HttpURL ''http'' ''h'' 7070 ''/x'') 0
        (snd (request demo_env 0 (HttpURL ''http'' ''h'' 8080 ''/x'') 0 w_fresh))
        = (Inl ConnectFailed,
           (snd (request demo_env 0 (HttpURL ''http'' ''h'' 8080 ''/x'') 0 w_fresh))
             \<lparr>events := [Connect ''h'' 8080, Send plain_sock (request_text ''h'' ''/x''),
                         Recv plain_sock, Connect ''h'' 7070]\<rparr>)"
  by (simp only: fetch_8080 snd_conv fst_conv)
     (simp add: eval_defs demo_env_def w_cached_def plain_sock_def)

text \<open>
  Claim C5. Let the socket be obtained and the cache hold an entry for the URL. An entry
  without expiry, or with an expiry after the reading of the clock, is returned. An entry
  whose expiry is at or before that reading is not: it is deleted, the request is sent
  and the response read on the socket, and the whole fetch proceeds exactly as it does
  from a cache without the entry.
\<close>

theorem cache_entry_expiry:
  assumes "obtain_socket env sch host port w = (Inr s, w1)"
    and "cache w (sch @ ''://'' @ host @ path) = Some (body, expiry)"
  shows "(expiry = None \<or> (\<exists>t. expiry = Some t \<and> clock env (ticks w) < t) \<longrightarrow>
            request env depth (HttpURL sch host port path) redirects w
              = (Inr body, w1\<lparr>ticks := ticks w1 + 1\<rparr>))
       \<and> (\<forall>t. expiry = Some t \<and> t \<le> clock env (ticks w) \<longrightarrow>
            http_begin env sch host port path w
              = send_request env s host path
                  (w1\<lparr>ticks := ticks w1 + 1,
                      cache := (cache w1)(sch @ ''://'' @ host @ path := None)\<rparr>)
            \<and> cache (snd (http_begin env sch host port path w)) (sch @ ''://'' @ host @ path) = None
            \<and> prefix (events w1 @ [Send s (request_text host path), Recv s])
                 (events (snd (request env depth (HttpURL sch host port path) redirects w)))
            \<and> request env depth (HttpURL sch host port path) redirects w
                = request env depth (HttpURL sch host port path) redirects
                    (w\<lparr>cache := (cache w)(sch @ ''://'' @ host @ path := None)\<rparr>))"
proof -
  let ?url = "sch @ ''://'' @ host @ path"
  let ?u = "HttpURL sch host port path"
  have fresh: "expiry = None \<or> (\<exists>t. expiry = Some t \<and> clock env (ticks w) < t) \<longrightarrow>
            request env depth ?u redirects w = (Inr body, w1\<lparr>ticks := ticks w1 + 1\<rparr>)"
    using http_begin_hit [OF assms] by simp
  have stale: "http_begin env sch host port path w
              = send_request env s host path
                  (w1\<lparr>ticks := ticks w1 + 1, cache := (cache w1)(?url := None)\<rparr>)
            \<and> cache (snd (http_begin env sch host port path w)) ?url = None
            \<and> prefix (events w1 @ [Send s (request_text host path), Recv s])
                 (events (snd (request env depth ?u redirects w)))
            \<and> request env depth ?u redirects w
                = request env depth ?u redirects (w\<lparr>cache := (cache w)(?url := None)\<rparr>)"
    if t: "expiry = Some t" "t \<le> clock env (ticks w)" for t
  proof -
    have hb: "http_begin env sch host port path w
              = send_request env s host path
                  (w1\<lparr>ticks := ticks w1 + 1, cache := (cache w1)(?url := None)\<rparr>)"
      using http_begin_expired [OF assms(1) _ t(2)] assms(2) t(1) by simp
    have c: "cache (snd (http_begin env sch host port path w)) ?url = None"
      unfolding hb by (simp add: send_request_world)
    have ev: "events (snd (http_begin env sch host port path w))
                = events w1 @ [Send s (request_text host path), Recv s]"
      unfolding hb by (simp add: send_request_world)
    have "extends (snd (http_begin env sch host port path w)) (snd (request env depth ?u redirects w))"
      by (rule request_after_begin)
    then have p: "prefix (events w1 @ [Send s (request_text host path), Recv s])
                 (events (snd (request env depth ?u redirects w)))"
      using ev by (simp add: extends_def)
    let ?w' = "w\<lparr>cache := (cache w)(?url := None)\<rparr>"
    have os: "obtain_socket env sch host port ?w' = (Inr s, w1\<lparr>cache := (cache w)(?url := None)\<rparr>)"
      using assms(1) by (simp add: obtain_socket_cache_update)
    have "http_begin env sch host port path ?w'
            = send_request env s host path
                ((w1\<lparr>cache := (cache w)(?url := None)\<rparr>)
                   \<lparr>ticks := ticks (w1\<lparr>cache := (cache w)(?url := None)\<rparr>) + 1\<rparr>)"
      by (rule http_begin_miss [OF os]) simp
    moreover have "(w1\<lparr>cache := (cache w)(?url := None)\<rparr>)
                   \<lparr>ticks := ticks (w1\<lparr>cache := (cache w)(?url := None)\<rparr>) + 1\<rparr>
                 = w1\<lparr>ticks := ticks w1 + 1, cache := (cache w1)(?url := None)\<rparr>"
      using obtain_socket_frame [OF assms(1)] by (intro world.equality) simp_all
    ultimately have "http_begin env sch host port path ?w' = http_begin env sch host port path w"
      using hb by simp
    then have "request env depth ?u redirects w = request env depth ?u redirects ?w'"
      by simp
    with hb c p show ?thesis by simp
  qed
  from fresh stale show ?thesis by blast
qed

text \<open>
  The theorem at an entry that expired at 900 when the clock reads 1000.
\<close>

theorem cache_entry_expiry_witness:
  "obtain_socket demo_env ''http'' ''h'' 8080 w_stale = (Inr plain_sock, w_stale)
   \<and> cache w_stale (''http'' @ ''://'' @ ''h'' @ ''/x'') = Some (''old'', Some 900)
   \<and> (900::real) \<le> clock demo_env (ticks w_stale)
   \<and> cache (snd (http_begin demo_env ''http'' ''h'' 8080 ''/x'' w_stale)) (''http'' @ ''://'' @ ''h'' @ ''/x'')
        = None
   \<and> prefix (events w_stale @ [Send plain_sock (request_text ''h'' ''/x''), Recv plain_sock])
        (events (snd (request demo_env 0 (HttpURL ''http'' ''h'' 8080 ''/x'') 0 w_stale)))
   \<and> request demo_env 0 (HttpURL ''http'' ''h'' 8080 ''/x'') 0 w_stale
        = (Inr ''hi'', w_stale\<lparr>cache := [''http://h/x'' \<mapsto> (''hi'', Some 1060)],
             events := [Send plain_sock (request_text ''h'' ''/x''), Recv plain_sock],
             ticks := 2\<rparr>)"
proof -
  have a: "obtain_socket demo_env ''http'' ''h'' 8080 w_stale = (Inr plain_sock, w_stale)"
    by (simp add: obtain_socket_def w_stale_def)
  have b: "cache w_stale (''http'' @ ''://'' @ ''h'' @ ''/x'') = Some (''old'', Some 900)"
    by (simp add: w_stale_def)
  have c: "(900::real) \<le> clock demo_env (ticks w_stale)" by (simp add: demo_env_def)
  have d: "request demo_env 0 (HttpURL ''http'' ''h'' 8080 ''/x'') 0 w_stale
        = (Inr ''hi'', w_stale\<lparr>cache := [''http://h/x'' \<mapsto> (''hi'', Some 1060)],
             events := [Send plain_sock (request_text ''h'' ''/x''), Recv plain_sock],
             ticks := 2\<rparr>)"
    by (simp add: eval_defs demo_env_def w_stale_def read_head_page)
  note e = cache_entry_expiry [OF a b, of 0 0, THEN conjunct2, rule_format, of 900,
      OF conjI [OF refl c]]
  show ?thesis
    using a b c d e by blast
qed

lemma cache_insert_stored:
  assumes "cache_insert env url body hdrs w = (None, w')" and "cache w' \<noteq> cache w"
  shows "\<exists>t. cache w' = (cache w)(url \<mapsto> (body, Some t))"
  using assms
  by (auto simp: cache_insert_def time_def Let_def split: if_splits sum.splits option.splits)

lemma http_finish_stored:
  assumes "http_finish env url st hdrs response w = (Inr body, w')" and "cache w' \<noteq> cache w"
  shows "\<exists>t. cache w' = (cache w)(url \<mapsto> (body, Some t))"
proof -
  from assms have "cache_insert env url body hdrs w = (None, w')"
    by (auto simp: http_finish_def split: sum.splits option.splits prod.splits if_splits)
  then show ?thesis using assms(2) by (rule cache_insert_stored)
qed

text \<open>
  Claim C9, as amended. The key under which a response is stored and looked up is
  scheme://host/path, without the port. When a fetch on port \<open>p1\<close>, from any state
  \<open>w\<close> of the process, was answered 200 and stored its body, a later fetch of the same
  scheme, host and path on any port \<open>p2\<close>, made while the entry is there and unexpired,
  returns that body without sending a request, provided the connection for
  \<^verbatim>\<open>(host, p2)\<close> is pooled or can be established: the connection is obtained before
  the cache is looked at, and the only network events of the later fetch are those of
  obtaining it.
\<close>

theorem cache_key_ignores_port:
  assumes "http_begin env sch host p1 path w = (Head status hdrs response, wb)"
    and "py_int 10 status = Inr 200"
    and "request env d (HttpURL sch host p1 path) r w = (Inr body, w1)"
    and "cache w1 \<noteq> cache wb"
    and "cache w2 (sch @ ''://'' @ host @ path) = cache w1 (sch @ ''://'' @ host @ path)"
    and "\<forall>t. cache w1 (sch @ ''://'' @ host @ path) = Some (body, Some t)
            \<longrightarrow> clock env (ticks w2) < t"
    and "obtain_socket env sch host p2 w2 = (Inr s, w3)"
  shows "(\<exists>t. cache w1 (sch @ ''://'' @ host @ path) = Some (body, Some t))
       \<and> request env d' (HttpURL sch host p2 path) r' w2 = (Inr body, w3\<lparr>ticks := ticks w3 + 1\<rparr>)
       \<and> events w3 = events w2 @ (if open_sockets w2 (host, p2) = None
                                  then Connect host p2 #
                                       (if reachable env host p2 \<and> sch = ''https''
                                        then [Handshake host p2] else [])
                                  else [])"
proof -
  let ?url = "sch @ ''://'' @ host @ path"
  have "http_finish env ?url 200 hdrs response wb = (Inr body, w1)"
    using assms(1,2,3) by simp
  then obtain t where "cache w1 = (cache wb)(?url \<mapsto> (body, Some t))"
    using assms(4) http_finish_stored by blast
  then have c1: "cache w1 ?url = Some (body, Some t)" by simp
  with assms(5) have c2: "cache w2 ?url = Some (body, Some t)" by simp
  from c1 assms(6) have "clock env (ticks w2) < t" by blast
  then have fresh: "Some t = None \<or> (\<exists>t'. Some t = Some t' \<and> clock env (ticks w2) < t')"
    by simp
  have "request env d' (HttpURL sch host p2 path) r' w2 = (Inr body, w3\<lparr>ticks := ticks w3 + 1\<rparr>)"
    using http_begin_hit [OF assms(7) c2 fresh] by simp
  moreover have "events w3 = events w2 @ (if open_sockets w2 (host, p2) = None
                                  then Connect host p2 #
                                       (if reachable env host p2 \<and> sch = ''https''
                                        then [Handshake host p2] else [])
                                  else [])"
    using obtain_socket_events [of env sch host p2 w2] assms(7) by simp
  ultimately show ?thesis using c1 by blast
qed

text \<open>
  The theorem at a fetch on port 8080 followed by one on port 9090.
\<close>

theorem cache_key_ignores_port_witness:
  "http_begin demo_env ''http'' ''h'' 8080 ''/x'' w_fresh
     = (Head ''200'' [''cache-control'' \<mapsto> ''max-age=60'', ''content-length'' \<mapsto> ''2''] ''hi'',
        w_begin)
   \<and> py_int 10 ''200'' = Inr 200
   \<and> request demo_env 0 (HttpURL ''http'' ''h'' 8080 ''/x'') 0 w_fresh = (Inr ''hi'', w_cached)
   \<and> cache w_cached \<noteq> cache w_begin
   \<and> cache w_cached (''http'' @ ''://'' @ ''h'' @ ''/x'') = Some (''hi'', Some 1060)
   \<and> clock demo_env (ticks w_cached) < 1060
   \<and> obtain_socket demo_env ''http'' ''h'' 9090 w_cached = (Inr other_sock, w_other)
   \<and> request demo_env 0 (HttpURL ''http'' ''h'' 9090 ''/x'') 0 w_cached
        = (Inr ''hi'', w_other\<lparr>ticks := ticks w_other + 1\<rparr>)
   \<and> events w_other = events w_cached @ [Connect ''h'' 9090]"
proof -
  have a: "http_begin demo_env ''http'' ''h'' 8080 ''/x'' w_fresh
     = (Head ''200'' [''cache-control'' \<mapsto> ''max-age=60'', ''content-length'' \<mapsto> ''2''] ''hi'',
        w_begin)"
    by (simp add: eval_defs demo_env_def w_fresh_def w_begin_def plain_sock_def read_head_page)
  have b: "py_int 10 ''200'' = Inr 200"
    by (simp add: eval_defs)
  have c: "request demo_env 0 (HttpURL ''http'' ''h'' 8080 ''/x'') 0 w_fresh = (Inr ''hi'', w_cached)"
    by (rule fetch_8080)
  have d: "cache w_cached \<noteq> cache w_begin"
  proof
    assume "cache w_cached = cache w_begin"
    then have "cache w_cached ''http://h/x'' = cache w_begin ''http://h/x''" by simp
    then show False by (simp add: w_cached_def w_begin_def)
  qed
  have e: "cache w_cached (''http'' @ ''://'' @ ''h'' @ ''/x'')
             = cache w_cached (''http'' @ ''://'' @ ''h'' @ ''/x'')" by simp
  have f: "\<forall>t. cache w_cached (''http'' @ ''://'' @ ''h'' @ ''/x'') = Some (''hi'', Some t)
          \<longrightarrow> clock demo_env (ticks w_cached) < t"
    by (simp add: w_cached_def demo_env_def)
  have g: "obtain_socket demo_env ''http'' ''h'' 9090 w_cached = (Inr other_sock, w_other)"
    by (simp add: obtain_socket_def demo_env_def w_cached_def w_other_def other_sock_def Let_def
        eval_nat_numeral)
  have h: "events w_other = events w_cached @ [Connect ''h'' 9090]"
    by (simp add: w_other_def w_cached_def)
  note th = cache_key_ignores_port [OF a b c d e f g, of 0 0]
  have i: "cache w_cached (''http'' @ ''://'' @ ''h'' @ ''/x'') = Some (''hi'', Some 1060)"
    by (simp add: w_cached_def)
  have j: "clock demo_env (ticks w_cached) < 1060" by (simp add: demo_env_def)
  show ?thesis using a b c d g h i j th by blast
qed

text \<open>
  Claim C9 as stated fails: the fetch of \<^verbatim>\<open>http://h:8080/x\<close> stores the body under
  the key \<^verbatim>\<open>http://h/x\<close>, and while that entry is unexpired the fetch of
  \<^verbatim>\<open>http://h:7070/x\<close>, a port nothing listens on, does not return the body: the
  connection is attempted first, and the method raises.
\<close>

theorem cached_body_lost_on_unreachable_port:
  "request demo_env 0 (HttpURL ''http'' ''h'' 8080 ''/x'') 0 w_fresh = (Inr ''hi'', w_cached)
   \<and> cache w_cached ''http://h/x'' = Some (''hi'', Some 1060)
   \<and> clock demo_env (ticks w_cached) < 1060
   \<and> \<not> reachable demo_env ''h'' 7070
   \<and> fst (request demo_env 0 (HttpURL ''http'' ''h'' 7070 ''/x'') 0 w_cached) = Inl ConnectFailed
   \<and> cache (snd (request demo_env 0 (HttpURL ''http'' ''h'' 7070 ''/x'') 0 w_cached)) ''http://h/x''
        = Some (''hi'', Some 1060)"
proof -
  have a: "request demo_env 0 (HttpURL ''http'' ''h'' 8080 ''/x'') 0 w_fresh = (Inr ''hi'', w_cached)"
    by (rule fetch_8080)
  have b: "cache w_cached ''http://h/x'' = Some (''hi'', Some 1060)"
    by (simp add: w_cached_def)
  have c: "clock demo_env (ticks w_cached) < 1060" "\<not> reachable demo_env ''h'' 7070"
    by (simp_all add: demo_env_def)
  have d: "request demo_env 0 (HttpURL ''http'' ''h'' 7070 ''/x'') 0 w_cached
             = (Inl ConnectFailed,
                w_cached\<lparr>events := events w_cached @ [Connect ''h'' 7070]\<rparr>)"
    by (simp add: eval_defs demo_env_def w_cached_def plain_sock_def)
  have e: "fst (request demo_env 0 (HttpURL ''http'' ''h'' 7070 ''/x'') 0 w_cached) = Inl ConnectFailed"
    by (simp only: d fst_conv)
  have f: "cache (snd (request demo_env 0 (HttpURL ''http'' ''h'' 7070 ''/x'') 0 w_cached)) ''http://h/x''
             = Some (''hi'', Some 1060)"
    by (simp only: d snd_conv) (simp add: w_cached_def)
  from a b c e f show ?thesis by blast
qed

















lemma readline_line:
  assumes "line \<noteq> []" "last line = LF" "LF \<notin> set (butlast line)"
  shows "readline (line @ after) = (line, after)"
proof -
  define a where "a = butlast line"
  from assms(1,2) have l: "line = a @ [LF]"
    unfolding a_def by (metis append_butlast_last_id)
  have "split1 LF (a @ LF # after) = Some (a, after)"
    using assms(3) unfolding a_def by (rule split1_append)
  then show ?thesis unfolding l by (simp add: readline_def)
qed

lemma reader_read_exact:
  "int (length p) \<le> PY_SSIZE_T_MAX \<Longrightarrow> reader_read (int (length p)) (p @ after) = Inr (p, after)"
  by (simp add: reader_read_def PY_SSIZE_T_MAX_def)

lemma read_chunked_step:
  assumes "chunk_ok (size_line, payload, sep)"
  shows "read_chunked (size_line @ payload @ sep @ after) acc = read_chunked after (acc @ payload)"
proof -
  from assms have sl: "size_line_ok size_line (int (length payload))"
    and ne: "payload \<noteq> []" and le: "int (length payload) \<le> PY_SSIZE_T_MAX"
    and sep: "length sep = 2"
    by (simp_all add: chunk_ok_def)
  from sl have rl: "readline (size_line @ payload @ sep @ after) = (size_line, payload @ sep @ after)"
    by (simp add: size_line_ok_def readline_line)
  from sl have dl: "decode_line size_line = Inr size_line"
    and pi: "py_int 16 (strip size_line) = Inr (int (length payload))"
    by (simp_all add: size_line_ok_def)
  have r1: "reader_read (int (length payload)) (payload @ sep @ after) = Inr (payload, sep @ after)"
    using le by (rule reader_read_exact)
  have "reader_read (int (length sep)) (sep @ after) = Inr (sep, after)"
    by (rule reader_read_exact) (simp add: sep PY_SSIZE_T_MAX_def)
  then have r2: "reader_read 2 (sep @ after) = Inr (sep, after)" using sep by simp
  show ?thesis
    using rl dl pi r1 r2 ne by (subst read_chunked.simps) simp
qed

lemma read_chunked_last:
  assumes "size_line_ok last_line 0" and "LF \<notin> set trailer"
  shows "read_chunked (last_line @ trailer @ [LF] @ rest) acc = Inr (acc, rest)"
proof -
  from assms(1) have rl: "readline (last_line @ trailer @ [LF] @ rest) = (last_line, trailer @ [LF] @ rest)"
    by (simp add: size_line_ok_def readline_line)
  from assms(1) have dl: "decode_line last_line = Inr last_line"
    and pi: "py_int 16 (strip last_line) = Inr 0"
    by (simp_all add: size_line_ok_def)
  have "readline ((trailer @ [LF]) @ rest) = (trailer @ [LF], rest)"
    using assms(2) by (intro readline_line) simp_all
  then have r2: "snd (readline (trailer @ [LF] @ rest)) = rest" by simp
  show ?thesis
    using rl dl pi r2 by (subst read_chunked.simps) simp
qed

lemma read_chunked_stream:
  assumes "list_all chunk_ok chunks" and "size_line_ok last_line 0" and "LF \<notin> set trailer"
  shows "read_chunked (chunk_stream chunks (last_line @ trailer @ [LF] @ rest)) acc
           = Inr (acc @ concat (map (fst \<circ> snd) chunks), rest)"
  using assms(1)
proof (induction chunks arbitrary: acc)
  case Nil
  show ?case using read_chunked_last [OF assms(2,3)] by simp
next
  case (Cons c chunks)
  obtain size_line payload sep where c: "c = (size_line, payload, sep)" by (cases c)
  with Cons.prems have ok: "chunk_ok (size_line, payload, sep)" and rest: "list_all chunk_ok chunks"
    by simp_all
  show ?case
    using read_chunked_step [OF ok] Cons.IH [OF rest] c by simp
qed

lemma size_line_5: "size_line_ok (''5'' @ [CR, LF]) 5"
  by (simp add: size_line_ok_def decode_line_def eval_defs)

lemma size_line_3: "size_line_ok (''3'' @ [CR, LF]) 3"
  by (simp add: size_line_ok_def decode_line_def eval_defs)

lemma size_line_0: "size_line_ok (''0'' @ [CR, LF]) 0"
  by (simp add: size_line_ok_def decode_line_def eval_defs)

lemma chunks_5_3:
  assumes "length p1 = 5" "length p2 = 3"
  shows "read_chunked (''5'' @ [CR, LF] @ p1 @ [CR, LF] @ ''3'' @ [CR, LF] @ p2 @ [CR, LF]
                       @ ''0'' @ [CR, LF] @ [CR, LF]) [] = Inr (p1 @ p2, [])"
proof -
  have 1: "chunk_ok (''5'' @ [CR, LF], p1, [CR, LF])"
    using assms(1) size_line_5 by (auto simp: chunk_ok_def PY_SSIZE_T_MAX_def)
  have 2: "chunk_ok (''3'' @ [CR, LF], p2, [CR, LF])"
    using assms(2) size_line_3 by (auto simp: chunk_ok_def PY_SSIZE_T_MAX_def)
  have "list_all chunk_ok [(''5'' @ [CR, LF], p1, [CR, LF]), (''3'' @ [CR, LF], p2, [CR, LF])]"
    using 1 2 by simp
  from read_chunked_stream [OF this size_line_0, of "[CR]" "[]" "[]"]
  show ?thesis by simp
qed

text \<open>
  Claim C6. On a stream made of well-formed chunks, a size line of value 0 and one after
  line, the chunk loop returns the payloads concatenated in order and leaves exactly what
  follows that last line; this is the body when the \<^verbatim>\<open>transfer-encoding\<close> header equals
  \<^verbatim>\<open>chunked\<close>. In particular, chunks with the size lines \<^verbatim>\<open>5\<close>, \<^verbatim>\<open>3\<close> and \<^verbatim>\<open>0\<close>
  and any payloads of five and of three bytes give a body of exactly eight bytes, the
  two payloads in order.
\<close>

theorem chunked_body:
  assumes "list_all chunk_ok chunks" and "size_line_ok last_line 0" and "LF \<notin> set trailer"
    and "hdrs ''transfer-encoding'' = Some ''chunked''"
  shows "read_chunked (chunk_stream chunks (last_line @ trailer @ [LF] @ rest)) acc
           = Inr (acc @ concat (map (fst \<circ> snd) chunks), rest)
       \<and> read_body hdrs (chunk_stream chunks (last_line @ trailer @ [LF] @ rest))
           = Inr (concat (map (fst \<circ> snd) chunks))
       \<and> (length p1 = 5 \<and> length p2 = 3 \<longrightarrow>
            read_body hdrs (''5'' @ [CR, LF] @ p1 @ [CR, LF] @ ''3'' @ [CR, LF] @ p2 @ [CR, LF]
                            @ ''0'' @ [CR, LF] @ [CR, LF]) = Inr (p1 @ p2)
            \<and> length (p1 @ p2) = 8)"
proof -
  note a = read_chunked_stream [OF assms(1,2,3)]
  have b: "read_body hdrs (chunk_stream chunks (last_line @ trailer @ [LF] @ rest))
           = Inr (concat (map (fst \<circ> snd) chunks))"
    using a [of rest "[]"] assms(4) by (simp add: read_body_def)
  have c: "length p1 = 5 \<and> length p2 = 3 \<longrightarrow>
            read_body hdrs (''5'' @ [CR, LF] @ p1 @ [CR, LF] @ ''3'' @ [CR, LF] @ p2 @ [CR, LF]
                            @ ''0'' @ [CR, LF] @ [CR, LF]) = Inr (p1 @ p2)
            \<and> length (p1 @ p2) = 8"
    using chunks_5_3 [of p1 p2] assms(4) by (simp add: read_body_def)
  show ?thesis using a b c by blast
qed

text \<open>The theorem at the chunks \<^verbatim>\<open>hello\<close> and \<^verbatim>\<open>wor\<close>.\<close>

theorem chunked_body_witness:
  "list_all chunk_ok [(''5'' @ [CR, LF], ''hello'', [CR, LF]), (''3'' @ [CR, LF], ''wor'', [CR, LF])]
   \<and> size_line_ok (''0'' @ [CR, LF]) 0
   \<and> LF \<notin> set [CR]
   \<and> chunked_headers ''transfer-encoding'' = Some ''chunked''
   \<and> length ''hello'' = 5 \<and> length ''wor'' = 3
   \<and> chunk_stream [(''5'' @ [CR, LF], ''hello'', [CR, LF]), (''3'' @ [CR, LF], ''wor'', [CR, LF])]
        ((''0'' @ [CR, LF]) @ [CR] @ [LF] @ [])
        = ''5'' @ [CR, LF] @ ''hello'' @ [CR, LF] @ ''3'' @ [CR, LF] @ ''wor'' @ [CR, LF]
          @ ''0'' @ [CR, LF] @ [CR, LF]
   \<and> read_body chunked_headers
        (''5'' @ [CR, LF] @ ''hello'' @ [CR, LF] @ ''3'' @ [CR, LF] @ ''wor'' @ [CR, LF]
         @ ''0'' @ [CR, LF] @ [CR, LF]) = Inr ''hellowor''
   \<and> length ''hellowor'' = 8"
proof -
  have a: "list_all chunk_ok
             [(''5'' @ [CR, LF], ''hello'', [CR, LF]), (''3'' @ [CR, LF], ''wor'', [CR, LF])]"
    using size_line_5 size_line_3 by (simp add: chunk_ok_def PY_SSIZE_T_MAX_def)
  have b: "LF \<notin> set [CR]" by simp
  have c: "chunked_headers ''transfer-encoding'' = Some ''chunked''"
    by (simp add: chunked_headers_def)
  note th = chunked_body [of "[(''5'' @ [CR, LF], ''hello'', [CR, LF]), (''3'' @ [CR, LF], ''wor'', [CR, LF])]"
      "''0'' @ [CR, LF]" "[CR]" chunked_headers "[]" "[]" "''hello''" "''wor''",
      OF a size_line_0 b c]
  have d: "read_body chunked_headers
        (''5'' @ [CR, LF] @ ''hello'' @ [CR, LF] @ ''3'' @ [CR, LF] @ ''wor'' @ [CR, LF]
         @ ''0'' @ [CR, LF] @ [CR, LF]) = Inr ''hellowor''"
    using th by simp
  show ?thesis using a b c d size_line_0 by simp
qed

lemma redirect_location_counter:
  "redirect_location sch host path hdrs r = Inl TooManyRedirects \<longleftrightarrow> 5 \<le> r"
  by (auto simp: redirect_location_def split: option.splits)

lemma redirect_location_below:
  "r < 5 \<Longrightarrow> redirect_location sch host path hdrs r = redirect_location sch host path hdrs 0"
  by (simp add: redirect_location_def)

lemma redirect_limit:
  assumes "http_begin env sch host port path w = (Head status hdrs response, w1)"
    and "py_int 10 status = Inr st" and "300 \<le> st \<and> st < 400" and "5 \<le> r"
  shows "request env d (HttpURL sch host port path) r w = (Inl TooManyRedirects, w1)"
  using assms by (simp add: redirect_location_def)

lemma redirect_follow:
  assumes "redirect_step env u w = Some (u', w')" and "r < 5"
  shows "request env (Suc d) u r w = request env d u' (r + 1) w'"
proof (cases u)
  case (HttpURL sch host port path)
  obtain hd w1 where hb: "http_begin env sch host port path w = (hd, w1)"
    by (cases "http_begin env sch host port path w")
  from assms(1) HttpURL hb obtain status hdrs response where h: "hd = Head status hdrs response"
    by (cases hd) (simp_all add: redirect_step_def)
  from assms(1) HttpURL hb h obtain st where st: "py_int 10 status = Inr st"
    by (cases "py_int 10 status") (simp_all add: redirect_step_def)
  from assms(1) HttpURL hb h st have rng: "300 \<le> st \<and> st < 400"
    by (auto simp: redirect_step_def split: if_splits)
  from assms(1) HttpURL hb h st rng obtain loc where
    loc: "redirect_location sch host path hdrs 0 = Inr loc"
    by (cases "redirect_location sch host path hdrs 0") (simp_all add: redirect_step_def)
  from assms(1) HttpURL hb h st rng loc have u': "URL_init loc = Inr u'" and w': "w' = w1"
    by (auto simp: redirect_step_def split: sum.splits)
  have "redirect_location sch host path hdrs r = Inr loc"
    using loc redirect_location_below [OF assms(2)] by simp
  with HttpURL hb h st rng u' w' show ?thesis by simp
next
  case (FileURL p)
  with assms(1) show ?thesis by (simp add: redirect_step_def)
next
  case (DataURL m d)
  with assms(1) show ?thesis by (simp add: redirect_step_def)
next
  case (ViewSourceURL a)
  with assms(1) show ?thesis by (simp add: redirect_step_def)
qed

lemma chain_follow:
  "redirect_chain env u w n = Some (u', w') \<Longrightarrow> r + int n \<le> 5 \<Longrightarrow>
     request env (d + n) u r w = request env d u' (r + int n) w'"
proof (induction n arbitrary: u w r)
  case 0
  then show ?case by simp
next
  case (Suc n)
  from Suc.prems(1) obtain u1 w1 where
    st: "redirect_step env u w = Some (u1, w1)" and ch: "redirect_chain env u1 w1 n = Some (u', w')"
    by (auto split: option.splits)
  from Suc.prems(2) have r: "r < 5" and r1: "(r + 1) + int n \<le> 5" by simp_all
  have "request env (d + Suc n) u r w = request env (d + n) u1 (r + 1) w1"
    using redirect_follow [OF st r, of "d + n"] by simp
  also have "\<dots> = request env d u' ((r + 1) + int n) w'"
    using Suc.IH [OF ch r1] .
  also have "(r + 1) + int n = r + int (Suc n)" by simp
  finally show ?case .
qed

text \<open>
  Redirects between http and https URLs. Let five redirects be followed from a request
  made with the counter 0 in any state \<open>w\<close> of the process, each from an http or https
  URL, leading to an http or https URL, and let the interpreter allow the five nested
  calls. Then the first request is the request of that URL with the counter 5. If the
  response to it is a sixth redirect, a status from 300 to 399, the first request raises
  the exception \<^verbatim>\<open>Too many redirects\<close>; if it is any other response, the first request
  returns what that final response gives, its body when it reads and decodes. At every
  hop, the redirect branch raises that exception exactly when the counter is 5 or more.
\<close>

lemma redirect_limit_http_chain:
  assumes "redirect_chain env u w 5 = Some (HttpURL sch host port path, w5)"
  shows "request env (depth + 5) u 0 w = request env depth (HttpURL sch host port path) 5 w5
       \<and> (\<forall>status hdrs response w6 st.
             http_begin env sch host port path w5 = (Head status hdrs response, w6)
             \<and> py_int 10 status = Inr st \<longrightarrow>
               request env (depth + 5) u 0 w =
                 (if 300 \<le> st \<and> st < 400 then (Inl TooManyRedirects, w6)
                  else http_finish env (sch @ ''://'' @ host @ path) st hdrs response w6))
       \<and> (\<forall>sch' host' port' path' w' status hdrs response w1 st r d.
             http_begin env sch' host' port' path' w' = (Head status hdrs response, w1)
             \<and> py_int 10 status = Inr st \<and> 300 \<le> st \<and> st < 400 \<and> 5 \<le> r \<longrightarrow>
               request env d (HttpURL sch' host' port' path') r w' = (Inl TooManyRedirects, w1))
       \<and> (\<forall>sch' host' path' hdrs r.
             (redirect_location sch' host' path' hdrs r = Inl TooManyRedirects) = (5 \<le> r))"
proof -
  have a: "request env (depth + 5) u 0 w = request env depth (HttpURL sch host port path) 5 w5"
    using chain_follow [OF assms, of 0 depth] by simp
  have b: "request env (depth + 5) u 0 w =
                 (if 300 \<le> st \<and> st < 400 then (Inl TooManyRedirects, w6)
                  else http_finish env (sch @ ''://'' @ host @ path) st hdrs response w6)"
    if "http_begin env sch host port path w5 = (Head status hdrs response, w6)"
      and "py_int 10 status = Inr st" for status hdrs response w6 st
    unfolding a using that by (simp add: redirect_location_def)
  have c: "request env d (HttpURL sch' host' port' path') r w' = (Inl TooManyRedirects, w1)"
    if "http_begin env sch' host' port' path' w' = (Head status hdrs response, w1)"
      "py_int 10 status = Inr st" "300 \<le> st \<and> st < 400" "5 \<le> r"
    for sch' host' port' path' w' status hdrs response w1 st r d
    using that by (rule redirect_limit)
  have b': "\<forall>status hdrs response w6 st.
             http_begin env sch host port path w5 = (Head status hdrs response, w6)
             \<and> py_int 10 status = Inr st \<longrightarrow>
               request env (depth + 5) u 0 w =
                 (if 300 \<le> st \<and> st < 400 then (Inl TooManyRedirects, w6)
                  else http_finish env (sch @ ''://'' @ host @ path) st hdrs response w6)"
    using b by blast
  have c': "\<forall>sch' host' port' path' w' status hdrs response w1 st r d.
             http_begin env sch' host' port' path' w' = (Head status hdrs response, w1)
             \<and> py_int 10 status = Inr st \<and> 300 \<le> st \<and> st < 400 \<and> 5 \<le> r \<longrightarrow>
               request env d (HttpURL sch' host' port' path') r w' = (Inl TooManyRedirects, w1)"
    using c by blast
  have e': "\<forall>sch' host' path' hdrs r.
             (redirect_location sch' host' path' hdrs r = Inl TooManyRedirects) = (5 \<le> r)"
    using redirect_location_counter by blast
  from a b' c' e' show ?thesis by (intro conjI)
qed

lemma read_head_redirect:
  "read_head redirect_response = Head ''301'' [''location'' \<mapsto> ''/x''] []"
  by (simp add: redirect_response_def head_defs)

lemma length_hop_events: "length (hop_events k) = 2 * k + 1"
  by (induction k) simp_all

lemma http_begin_hops:
  "http_begin env ''http'' ''h'' 80 ''/x'' (w_hops k) =
     (read_head (respond env (hop_events k @ [Send sock80 (request_text ''h'' ''/x'')])),
      w_hops (Suc k))"
  by (simp add: http_begin_def obtain_socket_def w_hops_def time_def cache_lookup_def
      send_request_def Let_def)

lemma http_begin_first:
  "reachable env ''h'' 80 \<Longrightarrow>
     http_begin env ''http'' ''h'' 80 ''/x'' w_fresh =
       (read_head (respond env [Connect ''h'' 80, Send sock80 (request_text ''h'' ''/x'')]),
        w_hops 1)"
  by (simp add: http_begin_def obtain_socket_def w_hops_def w_fresh_def time_def cache_lookup_def
      send_request_def Let_def sock80_def)

lemma location_x:
  "redirect_location ''http'' ''h'' ''/x'' [''location'' \<mapsto> ''/x''] 0 = Inr ''http://h/x''"
  by (simp add: redirect_location_def startswith_def)

lemma parse_x: "URL_init ''http://h/x'' = Inr u80"
  by (simp add: URL_init.simps split1_def startswith_def u80_def)

lemma py_int_301: "py_int 10 ''301'' = Inr 301"
  by (simp add: eval_defs)

lemma step_first:
  assumes "reachable env ''h'' 80"
    and "respond env [Connect ''h'' 80, Send sock80 (request_text ''h'' ''/x'')] = redirect_response"
  shows "redirect_step env u80 w_fresh = Some (u80, w_hops 1)"
  using assms
  by (simp add: redirect_step_def u80_def [symmetric] http_begin_first read_head_redirect
      py_int_301 location_x parse_x)
     (simp add: u80_def http_begin_first read_head_redirect py_int_301 location_x parse_x)

lemma step_next:
  assumes "respond env (hop_events k @ [Send sock80 (request_text ''h'' ''/x'')]) = redirect_response"
  shows "redirect_step env u80 (w_hops k) = Some (u80, w_hops (Suc k))"
  using assms
  by (simp add: redirect_step_def u80_def http_begin_hops read_head_redirect
      py_int_301 location_x parse_x [unfolded u80_def])

lemma red_env_respond:
  "respond red_env evs = (if length evs < 12 then redirect_response else page_response)"
  "reachable red_env = (\<lambda>h p. p \<noteq> 7070)" "clock red_env = (\<lambda>n. 1000)"
  by (simp_all add: red_env_def demo_env_def)

lemma loop_env_respond:
  "respond loop_env evs = redirect_response" "reachable loop_env = (\<lambda>h p. p \<noteq> 7070)"
  by (simp_all add: loop_env_def demo_env_def)

lemma chain_red: "redirect_chain red_env u80 w_fresh 5 = Some (u80, w_hops 5)"
proof -
  have 0: "redirect_step red_env u80 w_fresh = Some (u80, w_hops 1)"
    by (rule step_first) (simp_all add: red_env_respond)
  have k: "redirect_step red_env u80 (w_hops k) = Some (u80, w_hops (Suc k))" if "k < 5" for k
    using that by (intro step_next) (simp add: red_env_respond length_hop_events)
  show ?thesis
    using 0 k [of 1] k [of 2] k [of 3] k [of 4] by (simp add: eval_nat_numeral)
qed

lemma chain_loop: "redirect_chain loop_env u80 w_fresh 5 = Some (u80, w_hops 5)"
proof -
  have 0: "redirect_step loop_env u80 w_fresh = Some (u80, w_hops 1)"
    by (rule step_first) (simp_all add: loop_env_respond)
  have k: "redirect_step loop_env u80 (w_hops k) = Some (u80, w_hops (Suc k))" for k
    by (intro step_next) (simp add: loop_env_respond)
  show ?thesis
    using 0 k [of 1] k [of 2] k [of 3] k [of 4] by (simp add: eval_nat_numeral)
qed

text \<open>
  The server that redirects five times and then serves the page, and the server that
  redirects a sixth time.
\<close>

lemma redirect_limit_http_chain_runs:
  "redirect_chain red_env u80 w_fresh 5 = Some (HttpURL ''http'' ''h'' 80 ''/x'', w_hops 5)
   \<and> http_begin red_env ''http'' ''h'' 80 ''/x'' (w_hops 5) = (Head ''200'' page_headers ''hi'', w_hops 6)
   \<and> py_int 10 ''200'' = Inr 200
   \<and> request red_env 5 u80 0 w_fresh = (Inr ''hi'', w_final)
   \<and> redirect_chain loop_env u80 w_fresh 5 = Some (HttpURL ''http'' ''h'' 80 ''/x'', w_hops 5)
   \<and> http_begin loop_env ''http'' ''h'' 80 ''/x'' (w_hops 5)
        = (Head ''301'' [''location'' \<mapsto> ''/x''] [], w_hops 6)
   \<and> py_int 10 ''301'' = Inr 301
   \<and> request loop_env 5 u80 0 w_fresh = (Inl TooManyRedirects, w_hops 6)"
proof -
  have c1: "redirect_chain red_env u80 w_fresh 5 = Some (HttpURL ''http'' ''h'' 80 ''/x'', w_hops 5)"
    using chain_red by (simp add: u80_def)
  have c2: "redirect_chain loop_env u80 w_fresh 5 = Some (HttpURL ''http'' ''h'' 80 ''/x'', w_hops 5)"
    using chain_loop by (simp add: u80_def)
  have b1: "http_begin red_env ''http'' ''h'' 80 ''/x'' (w_hops 5)
              = (Head ''200'' page_headers ''hi'', w_hops 6)"
    by (simp add: http_begin_hops red_env_respond length_hop_events read_head_page
        page_headers_def)
  have b2: "http_begin loop_env ''http'' ''h'' 80 ''/x'' (w_hops 5)
              = (Head ''301'' [''location'' \<mapsto> ''/x''] [], w_hops 6)"
    by (simp add: http_begin_hops loop_env_respond read_head_redirect)
  have p1: "py_int 10 ''200'' = Inr 200" by (simp add: eval_defs)
  have f: "http_finish red_env (''http'' @ ''://'' @ ''h'' @ ''/x'') 200 page_headers ''hi'' (w_hops 6)
             = (Inr ''hi'', w_final)"
    by (simp add: eval_defs page_headers_def w_hops_def w_final_def red_env_respond
        red_env_def demo_env_def)
  note t1 = redirect_limit_http_chain [OF c1, of 0, THEN conjunct2, THEN conjunct1, rule_format,
      OF conjI [OF b1 p1]]
  note t2 = redirect_limit_http_chain [OF c2, of 0, THEN conjunct2, THEN conjunct1, rule_format,
      OF conjI [OF b2 py_int_301]]
  have r1: "request red_env 5 u80 0 w_fresh = (Inr ''hi'', w_final)"
    using t1 f by (simp del: request.simps)
  have r2: "request loop_env 5 u80 0 w_fresh = (Inl TooManyRedirects, w_hops 6)"
    using t2 by (simp del: request.simps)
  show ?thesis using c1 c2 b1 b2 p1 py_int_301 r1 r2 by blast
qed

lemma read_head_vs:
  "read_head vs_redirect_response
     = Head ''301'' [''location'' \<mapsto> ''view-source:http://h/x''] []"
  by (simp add: vs_redirect_response_def head_defs)

lemma location_vs:
  "redirect_location ''http'' ''h'' ''/x'' [''location'' \<mapsto> ''view-source:http://h/x''] 0
     = Inr ''view-source:http://h/x''"
  by (simp add: redirect_location_def startswith_def)

lemma parse_vs: "URL_init ''view-source:http://h/x'' = Inr (ViewSourceURL u80)"
  by (simp add: URL_init.simps split1_def startswith_def u80_def)

text \<open>
  One redirect to the view-source URL, from any state in which the request of
  \<^verbatim>\<open>http://h/x\<close> receives it: two nested calls later the same URL is requested with the
  counter 0 again, and without those two calls the method ends in \<^verbatim>\<open>RecursionError\<close>.
\<close>

lemma vs_hop:
  assumes "http_begin env ''http'' ''h'' 80 ''/x'' w
             = (Head ''301'' [''location'' \<mapsto> ''view-source:http://h/x''] [], w')"
  shows "request env (Suc (Suc d)) u80 0 w = request env d u80 0 w'"
    and "request env (Suc 0) u80 0 w = (Inl RecursionError, w')"
    and "request env 0 u80 0 w = (Inl RecursionError, w')"
  using assms
  by (simp_all add: u80_def py_int_301 location_vs parse_vs [unfolded u80_def]
      del: request.simps(4))
     (simp_all add: py_int_301 location_vs parse_vs [unfolded u80_def])

lemma vs_loop_env_respond:
  "respond vs_loop_env evs = vs_redirect_response" "reachable vs_loop_env ''h'' 80"
  by (simp_all add: vs_loop_env_def demo_env_def)

lemma vs_env_respond:
  "respond vs_env evs = (if length evs < 14 then vs_redirect_response else page_response)"
  "reachable vs_env ''h'' 80"
  by (simp_all add: vs_env_def demo_env_def)

lemma vs_loop_hops:
  "fst (request vs_loop_env depth u80 0 (w_hops k)) = Inl RecursionError"
proof (induction depth arbitrary: k rule: less_induct)
  case (less depth)
  have hb: "http_begin vs_loop_env ''http'' ''h'' 80 ''/x'' (w_hops k)
              = (Head ''301'' [''location'' \<mapsto> ''view-source:http://h/x''] [], w_hops (Suc k))"
    by (simp add: http_begin_hops vs_loop_env_respond read_head_vs)
  consider "depth = 0" | "depth = Suc 0" | d where "depth = Suc (Suc d)"
    by (cases depth rule: nat.exhaust; cases "depth - 1" rule: nat.exhaust) auto
  then show ?case
  proof cases
    case 1
    then show ?thesis by (simp only: vs_hop(3) [OF hb] fst_conv)
  next
    case 2
    then show ?thesis by (simp only: vs_hop(2) [OF hb] fst_conv)
  next
    case 3
    then have "d < depth" by simp
    from less.IH [OF this, of "Suc k"] 3 show ?thesis by (simp only: vs_hop(1) [OF hb])
  qed
qed

lemma vs_loop_fresh:
  "fst (request vs_loop_env depth u80 0 w_fresh) = Inl RecursionError"
proof -
  have hb: "http_begin vs_loop_env ''http'' ''h'' 80 ''/x'' w_fresh
              = (Head ''301'' [''location'' \<mapsto> ''view-source:http://h/x''] [], w_hops 1)"
    by (simp add: http_begin_first vs_loop_env_respond read_head_vs)
  consider "depth = 0" | "depth = Suc 0" | d where "depth = Suc (Suc d)"
    by (cases depth rule: nat.exhaust; cases "depth - 1" rule: nat.exhaust) auto
  then show ?thesis
  proof cases
    case 1
    then show ?thesis by (simp only: vs_hop(3) [OF hb] fst_conv)
  next
    case 2
    then show ?thesis by (simp only: vs_hop(2) [OF hb] fst_conv)
  next
    case 3
    with vs_loop_hops [of d 1] show ?thesis by (simp only: vs_hop(1) [OF hb])
  qed
qed

lemma vs_env_run: "request vs_env 12 u80 0 w_fresh = (Inr ''hi'', w_vs_final)"
proof -
  have h0: "http_begin vs_env ''http'' ''h'' 80 ''/x'' w_fresh
              = (Head ''301'' [''location'' \<mapsto> ''view-source:http://h/x''] [], w_hops 1)"
    by (simp add: http_begin_first vs_env_respond read_head_vs)
  have hk: "http_begin vs_env ''http'' ''h'' 80 ''/x'' (w_hops k)
              = (Head ''301'' [''location'' \<mapsto> ''view-source:http://h/x''] [], w_hops (Suc k))"
    if "k < 6" for k
    using that by (simp add: http_begin_hops vs_env_respond length_hop_events read_head_vs)
  have h6: "http_begin vs_env ''http'' ''h'' 80 ''/x'' (w_hops 6)
              = (Head ''200'' page_headers ''hi'', w_hops 7)"
    by (simp add: http_begin_hops vs_env_respond length_hop_events read_head_page
        page_headers_def)
  have f: "http_finish vs_env (''http'' @ ''://'' @ ''h'' @ ''/x'') 200 page_headers ''hi'' (w_hops 7)
             = (Inr ''hi'', w_vs_final)"
    by (simp add: eval_defs page_headers_def w_hops_def w_vs_final_def vs_env_def demo_env_def)
  have p: "py_int 10 ''200'' = Inr 200" by (simp add: eval_defs)
  have s: "Suc (Suc 10) = (12::nat)" "Suc (Suc 8) = (10::nat)" "Suc (Suc 6) = (8::nat)"
    "Suc (Suc 4) = (6::nat)" "Suc (Suc 2) = (4::nat)" "Suc (Suc 0) = (2::nat)"
    "Suc 1 = (2::nat)" "Suc 2 = (3::nat)" "Suc 3 = (4::nat)" "Suc 4 = (5::nat)"
    "Suc 5 = (6::nat)"
    by simp_all
  have k: "(1::nat) < 6" "(2::nat) < 6" "(3::nat) < 6" "(4::nat) < 6" "(5::nat) < 6"
    by simp_all
  have "request vs_env 12 u80 0 w_fresh = request vs_env 10 u80 0 (w_hops 1)"
    using vs_hop(1) [OF h0, of 10] unfolding s .
  also have "\<dots> = request vs_env 8 u80 0 (w_hops 2)"
    using vs_hop(1) [OF hk [OF k(1)], of 8] unfolding s .
  also have "\<dots> = request vs_env 6 u80 0 (w_hops 3)"
    using vs_hop(1) [OF hk [OF k(2)], of 6] unfolding s .
  also have "\<dots> = request vs_env 4 u80 0 (w_hops 4)"
    using vs_hop(1) [OF hk [OF k(3)], of 4] unfolding s .
  also have "\<dots> = request vs_env 2 u80 0 (w_hops 5)"
    using vs_hop(1) [OF hk [OF k(4)], of 2] unfolding s .
  also have "\<dots> = request vs_env 0 u80 0 (w_hops 6)"
    using vs_hop(1) [OF hk [OF k(5)], of 0] unfolding s .
  also have "\<dots> = (Inr ''hi'', w_vs_final)"
    using h6 p f by (simp add: u80_def)
  finally show ?thesis .
qed

text \<open>
  Claim C1. The claim holds where every hop of the chain is an http or https URL, and
  fails on the code where a redirect names a view-source URL: the method calls itself for
  the wrapped URL without passing the counter on (source line 50), so every such hop
  starts the count at 0 again. Against the server that answers the first six requests of
  \<^verbatim>\<open>http://h/x\<close> with a 301 to \<^verbatim>\<open>view-source:http://h/x\<close> and the seventh with the
  page, the request made with the counter 0 follows all six redirects and returns the
  body. Against the server that answers every request so, the request never raises
  \<^verbatim>\<open>Too many redirects\<close>: whatever number of nested calls the interpreter allows, it
  ends in \<^verbatim>\<open>RecursionError\<close>.
\<close>

theorem view_source_hop_restarts_redirect_count:
  "URL_init ''view-source:http://h/x'' = Inr (ViewSourceURL u80)
   \<and> read_head vs_redirect_response
        = Head ''301'' [''location'' \<mapsto> ''view-source:http://h/x''] []
   \<and> respond vs_env (hop_events 5 @ [Send sock80 (request_text ''h'' ''/x'')]) = vs_redirect_response
   \<and> respond vs_env (hop_events 6 @ [Send sock80 (request_text ''h'' ''/x'')]) = page_response
   \<and> request vs_env 12 u80 0 w_fresh = (Inr ''hi'', w_vs_final)
   \<and> events w_vs_final = hop_events 7
   \<and> (\<forall>depth. fst (request vs_loop_env depth u80 0 w_fresh) = Inl RecursionError)"
proof -
  have a: "respond vs_env (hop_events 5 @ [Send sock80 (request_text ''h'' ''/x'')])
             = vs_redirect_response"
    by (simp add: vs_env_respond length_hop_events)
  have b: "respond vs_env (hop_events 6 @ [Send sock80 (request_text ''h'' ''/x'')])
             = page_response"
    by (simp add: vs_env_respond length_hop_events)
  have c: "events w_vs_final = hop_events 7" by (simp add: w_vs_final_def)
  have d: "\<forall>depth. fst (request vs_loop_env depth u80 0 w_fresh) = Inl RecursionError"
    using vs_loop_fresh by blast
  from parse_vs read_head_vs a b vs_env_run c d show ?thesis by (intro conjI)
qed

end
